theory Spec2Isabelle
  imports Main "HOL-Library.Word"
begin

unbundle bit_operations_syntax

section \<open>Blob transaction data (core/types/data_blob.go)\<close>

subsection \<open>Bytes, errors and Go built-ins\<close>

type_synonym byte = "8 word"

text \<open>
  Every error value the file creates (\<open>errors.New\<close>, \<open>fmt.Errorf\<close>) or passes on from
  the packages it calls, and the run-time panic of an index out of range.
\<close>

datatype error =
    ErrNilPubkey
  | ErrNilKZGCommitment
  | ErrUnexpectedLength string
  | ErrHexInvalidByte char
  | ErrHexLength
  | ErrIndexOutOfRange
  | ErrBeyondScope nat nat
  | ErrEOF
  | ErrShortWrite
  | ErrListAlign nat nat
  | ErrListLimit nat nat
  | ErrContainerScope nat nat
  | ErrContainerOffset nat nat
  | ErrContainerNotFullyRead
  | ErrTxDecode
  | ErrExpectedSignedBlobTx
  | ErrTooManyBlobs nat nat
  | ErrKzgsBlobsMismatch nat nat
  | ErrKzgsHashesMismatch nat nat
  | ErrVersionedHashMismatch nat "byte list" "byte list"
  | ErrInternalErrorCommitments
  | ErrInternalCommitmentError
  | ErrInternalBlobsError
  | ErrVerifyBlobs

text \<open>
  Go's built-in \<open>copy(dst, src)\<close>: the first \<open>min (len dst) (len src)\<close> elements of
  \<open>dst\<close> are overwritten, the rest of \<open>dst\<close> stays.
\<close>

definition go_copy :: "'a list \<Rightarrow> 'a list \<Rightarrow> 'a list" where
  "go_copy dst src =
     take (min (length dst) (length src)) src @ drop (min (length dst) (length src)) dst"

subsection \<open>encoding/hex of the Go standard library\<close>

text \<open>
  Modelled from the spec: the package encoding/hex belongs to Go's standard library, not
  to this repository. The spec's text format is lowercase hex, decoded from hex
  characters; the definitions follow the library's \<open>hextable\<close>, \<open>EncodeToString\<close>,
  \<open>fromHexChar\<close> and \<open>Decode\<close>.
\<close>

definition hextable :: string where
  "hextable = ''0123456789abcdef''"

text \<open>
  Modelled from the spec: \<open>hex.EncodeToString\<close> gives two characters of \<open>hextable\<close>
  for each byte, high nibble first.
\<close>

fun hex_EncodeToString :: "byte list \<Rightarrow> string" where
  "hex_EncodeToString [] = []"
| "hex_EncodeToString (v # src) =
     hextable ! unat (drop_bit 4 v) # hextable ! unat (v AND 0x0f) # hex_EncodeToString src"

text \<open>
  Modelled from the spec: \<open>fromHexChar\<close> gives the value of one hex character, of
  either case, and nothing for any other byte.
\<close>

definition fromHexChar :: "char \<Rightarrow> byte option" where
  "fromHexChar c =
     (let b = (of_char c :: byte) in
      if of_char CHR ''0'' \<le> b \<and> b \<le> of_char CHR ''9'' then Some (b - of_char CHR ''0'')
      else if of_char CHR ''a'' \<le> b \<and> b \<le> of_char CHR ''f'' then Some (b - of_char CHR ''a'' + 10)
      else if of_char CHR ''A'' \<le> b \<and> b \<le> of_char CHR ''F'' then Some (b - of_char CHR ''A'' + 10)
      else None)"

text \<open>
  Modelled from the spec: \<open>hex.Decode(dst, src)\<close> is the loop over pairs of characters, writing \<open>dst[i]\<close> and
  stopping at the first character that is no hex digit; an odd last character is reported
  after the pairs. The result is the destination as the call leaves it, the number of bytes
  written and the error. Writing past the end of \<open>dst\<close> panics in Go.
\<close>

fun hex_Decode :: "byte list \<Rightarrow> nat \<Rightarrow> string \<Rightarrow> byte list \<times> nat \<times> error option" where
  "hex_Decode dst i (p # q # src) =
     (case fromHexChar p of
        None \<Rightarrow> (dst, i, Some (ErrHexInvalidByte p))
      | Some a \<Rightarrow>
          (case fromHexChar q of
             None \<Rightarrow> (dst, i, Some (ErrHexInvalidByte q))
           | Some b \<Rightarrow>
               if i < length dst
               then hex_Decode (dst[i := push_bit 4 a OR b]) (Suc i) src
               else (dst, i, Some ErrIndexOutOfRange)))"
| "hex_Decode dst i [p] =
     (case fromHexChar p of
        None \<Rightarrow> (dst, i, Some (ErrHexInvalidByte p))
      | Some a \<Rightarrow> (dst, i, Some ErrHexLength))"
| "hex_Decode dst i [] = (dst, i, None)"

subsection \<open>KZGCommitment\<close>

text \<open>
  \<open>type KZGCommitment [48]byte\<close>: a byte list; the theorems carry the array's length 48
  as a hypothesis. A pointer receiver \<open>*KZGCommitment\<close> is an option, \<open>None\<close> for nil.
\<close>

type_synonym KZGCommitment = "byte list"

definition BLOB_COMMITMENT_VERSION_KZG :: byte where
  "BLOB_COMMITMENT_VERSION_KZG = 0x01"

definition MAX_TX_WRAP_KZG_COMMITMENTS :: nat where
  "MAX_TX_WRAP_KZG_COMMITMENTS = 2 ^ 24"

definition LIMIT_BLOBS_PER_TX :: nat where
  "LIMIT_BLOBS_PER_TX = 2 ^ 24"

definition KZGCommitment_zero :: KZGCommitment where
  "KZGCommitment_zero = replicate 48 0"

definition KZGCommitment_ByteLength :: "KZGCommitment \<Rightarrow> nat" where
  "KZGCommitment_ByteLength p = 48"

definition KZGCommitment_FixedLength :: "KZGCommitment \<Rightarrow> nat" where
  "KZGCommitment_FixedLength p = 48"

text \<open>
  \<open>HashTreeRoot\<close>: \<open>a\<close> and \<open>b\<close> are zero-valued \<open>tree.Root\<close>s (32 bytes each), filled by
  \<open>copy\<close> from the two slices of the commitment and handed to the hash function \<open>hFn\<close>.
\<close>

definition KZGCommitment_HashTreeRoot ::
  "KZGCommitment \<Rightarrow> (byte list \<Rightarrow> byte list \<Rightarrow> 'r) \<Rightarrow> 'r" where
  "KZGCommitment_HashTreeRoot p hFn =
     (let a = go_copy (replicate 32 0) (take 32 p);
          b = go_copy (replicate 32 0) (drop 32 (take 48 p))
      in hFn a b)"

definition MarshalText :: "KZGCommitment \<Rightarrow> string \<times> error option" where
  "MarshalText p = (''0x'' @ hex_EncodeToString p, None)"

definition String :: "KZGCommitment \<Rightarrow> string" where
  "String p = ''0x'' @ hex_EncodeToString p"

text \<open>
  \<open>UnmarshalText\<close> returns the error and the receiver as the call leaves it:
  \<open>hex.Decode\<close> writes into \<open>p[:]\<close> directly.
\<close>

definition UnmarshalText ::
  "KZGCommitment option \<Rightarrow> string \<Rightarrow> error option \<times> KZGCommitment option" where
  "UnmarshalText p text =
     (case p of
        None \<Rightarrow> (Some ErrNilKZGCommitment, None)
      | Some pv \<Rightarrow>
          (let text' =
                 (if length text \<ge> 2 \<and> text ! 0 = CHR ''0''
                     \<and> (text ! 1 = CHR ''x'' \<or> text ! 1 = CHR ''X'')
                  then drop 2 text else text)
           in if length text' \<noteq> 96 then (Some (ErrUnexpectedLength text'), Some pv)
              else (case hex_Decode pv 0 text' of (pv', n, err) \<Rightarrow> (err, Some pv'))))"

text \<open>
  \<open>ComputeVersionedHash\<close>: \<open>crypto.Keccak256Hash\<close> is a parameter; a \<open>common.Hash\<close> is
  32 bytes, and \<open>h[0] = ...\<close> overwrites its first byte.
\<close>

definition ComputeVersionedHash :: "(byte list \<Rightarrow> byte list) \<Rightarrow> KZGCommitment \<Rightarrow> byte list" where
  "ComputeVersionedHash Keccak256Hash kzg =
     (let h = Keccak256Hash kzg in h[0 := BLOB_COMMITMENT_VERSION_KZG])"

subsection \<open>The SSZ codec (package codec of ztyp)\<close>

text \<open>
  Modelled from the spec: \<open>codec.DecodingReader\<close> belongs to the package ztyp, whose
  sources are not part of this repository. The spec's wire format reads fixed-size fields
  verbatim in stream order and fails when fewer bytes remain than required. The reader is
  the bytes its \<open>io.Reader\<close> still holds, the index \<open>i\<close> read so far and the bound
  \<open>max\<close> of its scope; \<open>Scope()\<close> is \<open>max - i\<close>.
\<close>

record DecodingReader =
  dr_input :: "byte list"
  dr_i :: nat
  dr_max :: nat

text \<open>
  Modelled from the spec: \<open>codec.NewDecodingReader\<close> starts a reader at index 0 with
  the given scope, and \<open>dr.Scope()\<close> is what the reader may still read.
\<close>

definition NewDecodingReader :: "byte list \<Rightarrow> nat \<Rightarrow> DecodingReader" where
  "NewDecodingReader bs scope = \<lparr>dr_input = bs, dr_i = 0, dr_max = scope\<rparr>"

definition dr_Scope :: "DecodingReader \<Rightarrow> nat" where
  "dr_Scope dr = dr_max dr - dr_i dr"

text \<open>
  Modelled from the spec: \<open>dr.Read(p)\<close> fills \<open>p\<close> completely or fails. A read past the
  scope is refused before any byte is taken; a stream that ends early leaves the bytes it
  had in the front of \<open>p\<close> and fails. The result is \<open>p\<close> as the call leaves it, the error
  and the reader.
\<close>

definition dr_Read ::
  "byte list \<Rightarrow> DecodingReader \<Rightarrow> byte list \<times> error option \<times> DecodingReader" where
  "dr_Read p dr =
     (if length p = 0 then (p, None, dr)
      else if dr_i dr + length p > dr_max dr
      then (p, Some (ErrBeyondScope (length p) (dr_i dr + length p - dr_max dr)), dr)
      else if length (dr_input dr) < length p
      then (go_copy p (dr_input dr), Some ErrEOF,
            dr\<lparr>dr_input := [], dr_i := dr_i dr + length (dr_input dr)\<rparr>)
      else (take (length p) (dr_input dr), None,
            dr\<lparr>dr_input := drop (length p) (dr_input dr), dr_i := dr_i dr + length p\<rparr>))"

text \<open>
  Modelled from the spec: \<open>codec.EncodingWriter\<close> of ztyp writes fixed-size fields
  verbatim. The writer is the bytes its \<open>io.Writer\<close> has received and the room that
  writer has left: \<open>None\<close> for a writer that takes everything (a \<open>bytes.Buffer\<close>),
  \<open>Some k\<close> for one that fails after \<open>k\<close> more bytes.
\<close>

record EncodingWriter =
  ew_out :: "byte list"
  ew_room :: "nat option"

text \<open>
  Modelled from the spec: a fresh writer on an empty buffer, and \<open>w.Write(p)\<close>, which
  hands \<open>p\<close> to the \<open>io.Writer\<close> and fails when that takes less than all of it.
\<close>

definition NewEncodingWriter :: EncodingWriter where
  "NewEncodingWriter = \<lparr>ew_out = [], ew_room = None\<rparr>"

definition ew_Write :: "byte list \<Rightarrow> EncodingWriter \<Rightarrow> error option \<times> EncodingWriter" where
  "ew_Write p w =
     (case ew_room w of
        None \<Rightarrow> (None, w\<lparr>ew_out := ew_out w @ p\<rparr>)
      | Some k \<Rightarrow>
          if length p \<le> k
          then (None, w\<lparr>ew_out := ew_out w @ p, ew_room := Some (k - length p)\<rparr>)
          else (Some ErrShortWrite, w\<lparr>ew_out := ew_out w @ take k p, ew_room := Some 0\<rparr>))"

text \<open>
  Modelled from the spec: \<open>dr.List(add, elemSize, limit)\<close> for elements of a fixed size.
  The count of elements is what the list's scope holds, \<open>Scope() / elemSize\<close>; a count
  above the limit fails before any element is read; then \<open>add()\<close> is called once for each
  element and the element it returns is deserialized. \<open>step\<close> is that pair of calls on the
  list being filled. Lists of variable-size elements (\<open>elemSize = 0\<close>) are read through a
  table of offsets instead; the lists of this file have elements of 48 and of
  \<open>FieldElementsPerBlob * 32\<close> bytes, and the model gives an error for a size of 0.
\<close>

fun dr_List_loop ::
  "('l \<Rightarrow> DecodingReader \<Rightarrow> error option \<times> 'l \<times> DecodingReader) \<Rightarrow> nat \<Rightarrow> 'l \<Rightarrow> DecodingReader
     \<Rightarrow> error option \<times> 'l \<times> DecodingReader" where
  "dr_List_loop step 0 li dr = (None, li, dr)"
| "dr_List_loop step (Suc k) li dr =
     (case step li dr of
        (Some e, li', dr') \<Rightarrow> (Some e, li', dr')
      | (None, li', dr') \<Rightarrow> dr_List_loop step k li' dr')"

definition dr_List ::
  "('l \<Rightarrow> DecodingReader \<Rightarrow> error option \<times> 'l \<times> DecodingReader) \<Rightarrow> nat \<Rightarrow> nat \<Rightarrow> 'l
     \<Rightarrow> DecodingReader \<Rightarrow> error option \<times> 'l \<times> DecodingReader" where
  "dr_List step elemSize limit li dr =
     (let scope = dr_Scope dr in
      if elemSize = 0 then (Some (ErrListAlign scope elemSize), li, dr)
      else if scope mod elemSize \<noteq> 0 then (Some (ErrListAlign scope elemSize), li, dr)
      else if scope div elemSize > limit then (Some (ErrListLimit (scope div elemSize) limit), li, dr)
      else dr_List_loop step (scope div elemSize) li dr)"

text \<open>
  Modelled from the spec: \<open>w.List(get, elemSize, length)\<close> for elements of a fixed size
  writes \<open>get(i)\<close> for \<open>i\<close> from 0 below \<open>length\<close>, in order, with nothing in between.
  \<open>ser i\<close> is \<open>get(i).Serialize\<close>.
\<close>

function ew_List_loop ::
  "(nat \<Rightarrow> EncodingWriter \<Rightarrow> error option \<times> EncodingWriter) \<Rightarrow> nat \<Rightarrow> nat \<Rightarrow> EncodingWriter
     \<Rightarrow> error option \<times> EncodingWriter" where
  "ew_List_loop ser i n w =
     (if i < n
      then (case ser i w of
              (Some e, w') \<Rightarrow> (Some e, w')
            | (None, w') \<Rightarrow> ew_List_loop ser (Suc i) n w')
      else (None, w))"
  by pat_completeness auto
termination
  by (relation "measure (\<lambda>(ser, i, n, w). n - i)") auto

declare ew_List_loop.simps [simp del]

definition ew_List ::
  "(nat \<Rightarrow> EncodingWriter \<Rightarrow> error option \<times> EncodingWriter) \<Rightarrow> nat \<Rightarrow> nat \<Rightarrow> EncodingWriter
     \<Rightarrow> error option \<times> EncodingWriter" where
  "ew_List ser elemSize n w = ew_List_loop ser 0 n w"

subsection \<open>KZGCommitment on the wire\<close>

definition KZGCommitment_Deserialize ::
  "KZGCommitment option \<Rightarrow> DecodingReader \<Rightarrow> error option \<times> KZGCommitment option \<times> DecodingReader" where
  "KZGCommitment_Deserialize p dr =
     (case p of
        None \<Rightarrow> (Some ErrNilPubkey, None, dr)
      | Some pv \<Rightarrow> (case dr_Read pv dr of (pv', err, dr') \<Rightarrow> (err, Some pv', dr')))"

definition KZGCommitment_Serialize ::
  "KZGCommitment \<Rightarrow> EncodingWriter \<Rightarrow> error option \<times> EncodingWriter" where
  "KZGCommitment_Serialize p w = ew_Write p w"

subsection \<open>Field elements and blobs\<close>

text \<open>
  \<open>type BLSFieldElement [32]byte\<close>, and \<open>type Blob []BLSFieldElement\<close>: a slice, with
  its elements and the elements of its backing array beyond its length (\<open>cap = len +
  length spare\<close>), which \<open>ReadFieldElements\<close> brings back into the slice when it reuses
  the space.
\<close>

type_synonym BLSFieldElement = "byte list"

record Blob =
  elems :: "BLSFieldElement list"
  spare :: "BLSFieldElement list"

definition Blob_empty :: Blob where
  "Blob_empty = \<lparr>elems = [], spare = []\<rparr>"

function ReadFieldElements_loop ::
  "DecodingReader \<Rightarrow> BLSFieldElement list \<Rightarrow> nat \<Rightarrow> nat
     \<Rightarrow> error option \<times> BLSFieldElement list \<times> DecodingReader" where
  "ReadFieldElements_loop dr dst i n =
     (if i < n
      then (if i < length dst
            then (case dr_Read (dst ! i) dr of
                    (p', Some err, dr') \<Rightarrow> (Some err, dst[i := p'], dr')
                  | (p', None, dr') \<Rightarrow> ReadFieldElements_loop dr' (dst[i := p']) (Suc i) n)
            else (Some ErrIndexOutOfRange, dst, dr))
      else (None, dst, dr))"
  by pat_completeness auto
termination
  by (relation "measure (\<lambda>(dr, dst, i, n). n - i)") auto

declare ReadFieldElements_loop.simps [simp del]

definition ReadFieldElements ::
  "DecodingReader \<Rightarrow> Blob \<Rightarrow> nat \<Rightarrow> error option \<times> Blob \<times> DecodingReader" where
  "ReadFieldElements dr es n =
     (let es1 =
            (if length (elems es) \<noteq> n
             then (if length (elems es) + length (spare es) \<ge> n
                   then \<lparr>elems = take n (elems es @ spare es), spare = drop n (elems es @ spare es)\<rparr>
                   else \<lparr>elems = replicate n (replicate 32 0), spare = []\<rparr>)
             else es)
      in case ReadFieldElements_loop dr (elems es1) 0 n of
           (err, dst, dr') \<Rightarrow> (err, es1\<lparr>elems := dst\<rparr>, dr'))"

fun WriteFieldElements ::
  "EncodingWriter \<Rightarrow> BLSFieldElement list \<Rightarrow> error option \<times> EncodingWriter" where
  "WriteFieldElements ew [] = (None, ew)"
| "WriteFieldElements ew (e # es) =
     (case ew_Write e ew of
        (Some err, ew') \<Rightarrow> (Some err, ew')
      | (None, ew') \<Rightarrow> WriteFieldElements ew' es)"

text \<open>
  \<open>params.FieldElementsPerBlob\<close> and \<open>params.MaxBlobsPerTx\<close> are constants of the package
  params; the functions that use them take them as their first argument.
\<close>

definition Blob_Deserialize ::
  "nat \<Rightarrow> Blob \<Rightarrow> DecodingReader \<Rightarrow> error option \<times> Blob \<times> DecodingReader" where
  "Blob_Deserialize FieldElementsPerBlob blob dr = ReadFieldElements dr blob FieldElementsPerBlob"

definition Blob_Serialize :: "Blob \<Rightarrow> EncodingWriter \<Rightarrow> error option \<times> EncodingWriter" where
  "Blob_Serialize blob w = WriteFieldElements w (elems blob)"

definition Blob_ByteLength :: "nat \<Rightarrow> Blob \<Rightarrow> nat" where
  "Blob_ByteLength FieldElementsPerBlob blob = FieldElementsPerBlob * 32"

definition Blob_FixedLength :: "nat \<Rightarrow> Blob \<Rightarrow> nat" where
  "Blob_FixedLength FieldElementsPerBlob blob = FieldElementsPerBlob * 32"

text \<open>
  Modelled from the spec: \<open>bls.FrFrom32\<close> of the package go-kzg converts the 32 bytes of
  a scalar to a field value, and fails when the scalar is not below the field modulus. The
  bytes are read as a little-endian integer; a field value is that integer.
\<close>

definition BLS_MODULUS :: nat where
  "BLS_MODULUS = 52435875175126190479447740508185965837690552500527637822603658699938581184513"

fun le_nat :: "byte list \<Rightarrow> nat" where
  "le_nat [] = 0"
| "le_nat (b # bs) = unat b + 256 * le_nat bs"

definition FrFrom32 :: "BLSFieldElement \<Rightarrow> nat option" where
  "FrFrom32 v = (if le_nat v < BLS_MODULUS then Some (le_nat v) else None)"

text \<open>
  \<open>ComputeCommitment\<close>: the loop converts the scalars in order into \<open>frs\<close> and leaves at
  the first that fails. \<open>kzg.BlobToKzg\<close> and \<open>bls.ToCompressedG1\<close> are parameters.
\<close>

fun ComputeCommitment_loop :: "nat list \<Rightarrow> BLSFieldElement list \<Rightarrow> nat list option" where
  "ComputeCommitment_loop frs [] = Some frs"
| "ComputeCommitment_loop frs (elem # blob) =
     (case FrFrom32 elem of
        None \<Rightarrow> None
      | Some fr \<Rightarrow> ComputeCommitment_loop (frs @ [fr]) blob)"

definition ComputeCommitment ::
  "(nat list \<Rightarrow> 'g) \<Rightarrow> ('g \<Rightarrow> byte list) \<Rightarrow> Blob \<Rightarrow> KZGCommitment \<times> bool" where
  "ComputeCommitment BlobToKzg ToCompressedG1 blob =
     (case ComputeCommitment_loop [] (elems blob) of
        None \<Rightarrow> (KZGCommitment_zero, False)
      | Some frs \<Rightarrow>
          (let commitmentG1 = BlobToKzg frs;
               out = go_copy KZGCommitment_zero (ToCompressedG1 commitmentG1)
           in (out, True)))"

subsection \<open>BlobKzgs and Blobs\<close>

text \<open>
  \<open>type BlobKzgs []KZGCommitment\<close> and \<open>type Blobs []Blob\<close> are lists. In
  \<open>Deserialize\<close> the function handed to \<open>dr.List\<close> appends a zero value to the list and
  returns a pointer to it, into which the element is then read.
\<close>

definition BlobKzgs_add ::
  "KZGCommitment list \<Rightarrow> DecodingReader \<Rightarrow> error option \<times> KZGCommitment list \<times> DecodingReader" where
  "BlobKzgs_add li dr =
     (let i = length li;
          li1 = li @ [KZGCommitment_zero]
      in case KZGCommitment_Deserialize (Some (li1 ! i)) dr of
           (err, Some p, dr') \<Rightarrow> (err, li1[i := p], dr')
         | (err, None, dr') \<Rightarrow> (err, li1, dr'))"

definition BlobKzgs_Deserialize ::
  "KZGCommitment list \<Rightarrow> DecodingReader \<Rightarrow> error option \<times> KZGCommitment list \<times> DecodingReader" where
  "BlobKzgs_Deserialize li dr = dr_List BlobKzgs_add 48 MAX_TX_WRAP_KZG_COMMITMENTS li dr"

definition BlobKzgs_get ::
  "KZGCommitment list \<Rightarrow> nat \<Rightarrow> EncodingWriter \<Rightarrow> error option \<times> EncodingWriter" where
  "BlobKzgs_get li i w =
     (if i < length li then KZGCommitment_Serialize (li ! i) w else (Some ErrIndexOutOfRange, w))"

definition BlobKzgs_Serialize ::
  "KZGCommitment list \<Rightarrow> EncodingWriter \<Rightarrow> error option \<times> EncodingWriter" where
  "BlobKzgs_Serialize li w = ew_List (BlobKzgs_get li) 48 (length li) w"

definition BlobKzgs_ByteLength :: "KZGCommitment list \<Rightarrow> nat" where
  "BlobKzgs_ByteLength li = length li * 48"

definition BlobKzgs_FixedLength :: "KZGCommitment list \<Rightarrow> nat" where
  "BlobKzgs_FixedLength li = 0"

definition Blobs_add ::
  "nat \<Rightarrow> Blob list \<Rightarrow> DecodingReader \<Rightarrow> error option \<times> Blob list \<times> DecodingReader" where
  "Blobs_add FieldElementsPerBlob a dr =
     (let i = length a;
          a1 = a @ [Blob_empty]
      in case Blob_Deserialize FieldElementsPerBlob (a1 ! i) dr of
           (err, b, dr') \<Rightarrow> (err, a1[i := b], dr'))"

definition Blobs_Deserialize ::
  "nat \<Rightarrow> Blob list \<Rightarrow> DecodingReader \<Rightarrow> error option \<times> Blob list \<times> DecodingReader" where
  "Blobs_Deserialize FieldElementsPerBlob a dr =
     dr_List (Blobs_add FieldElementsPerBlob) (FieldElementsPerBlob * 32) LIMIT_BLOBS_PER_TX a dr"

definition Blobs_get ::
  "Blob list \<Rightarrow> nat \<Rightarrow> EncodingWriter \<Rightarrow> error option \<times> EncodingWriter" where
  "Blobs_get a i w =
     (if i < length a then Blob_Serialize (a ! i) w else (Some ErrIndexOutOfRange, w))"

definition Blobs_Serialize ::
  "nat \<Rightarrow> Blob list \<Rightarrow> EncodingWriter \<Rightarrow> error option \<times> EncodingWriter" where
  "Blobs_Serialize FieldElementsPerBlob a w =
     ew_List (Blobs_get a) (FieldElementsPerBlob * 32) (length a) w"

definition Blobs_ByteLength :: "nat \<Rightarrow> Blob list \<Rightarrow> nat" where
  "Blobs_ByteLength FieldElementsPerBlob a = length a * FieldElementsPerBlob * 32"

definition Blobs_FixedLength :: "Blob list \<Rightarrow> nat" where
  "Blobs_FixedLength a = 0"

text \<open>
  \<open>Commitments\<close> and \<open>Blobs\<close> extract the crypto material; \<open>bls.FromCompressedG1\<close>
  (behind \<open>Point\<close>) is a parameter that gives a point or an error.
\<close>

definition Point :: "(byte list \<Rightarrow> error + 'g) \<Rightarrow> KZGCommitment \<Rightarrow> error + 'g" where
  "Point FromCompressedG1 p = FromCompressedG1 p"

fun Commitments_loop ::
  "(byte list \<Rightarrow> error + 'g) \<Rightarrow> 'g list \<Rightarrow> KZGCommitment list \<Rightarrow> error + 'g list" where
  "Commitments_loop FromCompressedG1 points [] = Inr points"
| "Commitments_loop FromCompressedG1 points (c # li) =
     (case Point FromCompressedG1 c of
        Inl err \<Rightarrow> Inl ErrInternalErrorCommitments
      | Inr p \<Rightarrow> Commitments_loop FromCompressedG1 (points @ [p]) li)"

definition Commitments ::
  "(byte list \<Rightarrow> error + 'g) \<Rightarrow> KZGCommitment list \<Rightarrow> error + 'g list" where
  "Commitments FromCompressedG1 li = Commitments_loop FromCompressedG1 [] li"

fun Blobs_chunks :: "nat list \<Rightarrow> BLSFieldElement list \<Rightarrow> error + nat list" where
  "Blobs_chunks blob [] = Inr blob"
| "Blobs_chunks blob (chunk # b) =
     (case FrFrom32 chunk of
        None \<Rightarrow> Inl ErrInternalErrorCommitments
      | Some chunkFr \<Rightarrow> Blobs_chunks (blob @ [chunkFr]) b)"

fun Blobs_loop :: "nat list list \<Rightarrow> Blob list \<Rightarrow> error + nat list list" where
  "Blobs_loop result [] = Inr result"
| "Blobs_loop result (b # blobs) =
     (case Blobs_chunks [] (elems b) of
        Inl err \<Rightarrow> Inl err
      | Inr blob \<Rightarrow> Blobs_loop (result @ [blob]) blobs)"

definition Blobs_Blobs :: "Blob list \<Rightarrow> error + nat list list" where
  "Blobs_Blobs blobs = Blobs_loop [] blobs"

subsection \<open>BlobTxWrapData and its check\<close>

record BlobTxWrapData =
  BlobKzgs :: "KZGCommitment list"
  Blobs :: "Blob list"

text \<open>
  Modelled from the spec: \<open>TxData\<close> is the interface of the transaction bodies and
  \<open>SignedBlobTx\<close> one of them, both declared in other files of the repository. The
  spec's transaction carries a declared hash list; \<open>checkWrapping\<close> reads only that,
  \<open>Message.BlobVersionedHashes\<close> (a \<open>common.Hash\<close> is 32 bytes), and tells a
  \<open>SignedBlobTx\<close> from any other body.
\<close>

datatype TxData =
    SignedBlobTx (BlobVersionedHashes: "byte list list")
  | OtherTxData

text \<open>
  The loop of \<open>checkWrapping\<close> over the declared hashes, from index \<open>i\<close> on:
  \<open>b.BlobKzgs[i]\<close> panics out of range.
\<close>

fun checkWrapping_hashes ::
  "(byte list \<Rightarrow> byte list) \<Rightarrow> KZGCommitment list \<Rightarrow> nat \<Rightarrow> byte list list \<Rightarrow> error option" where
  "checkWrapping_hashes Keccak256Hash kzgs i [] = None"
| "checkWrapping_hashes Keccak256Hash kzgs i (h # hs) =
     (if i < length kzgs
      then (let computed = ComputeVersionedHash Keccak256Hash (kzgs ! i)
            in if computed \<noteq> h then Some (ErrVersionedHashMismatch i h computed)
               else checkWrapping_hashes Keccak256Hash kzgs (Suc i) hs)
      else Some ErrIndexOutOfRange)"

text \<open>
  \<open>checkWrapping\<close>: \<open>None\<close> is the nil error. \<open>kzg.VerifyBlobs\<close> is a parameter, whose
  result is returned as it is.
\<close>

definition checkWrapping ::
  "nat \<Rightarrow> (byte list \<Rightarrow> byte list) \<Rightarrow> (byte list \<Rightarrow> error + 'g)
     \<Rightarrow> ('g list \<Rightarrow> nat list list \<Rightarrow> error option) \<Rightarrow> BlobTxWrapData \<Rightarrow> TxData \<Rightarrow> error option" where
  "checkWrapping MaxBlobsPerTx Keccak256Hash FromCompressedG1 VerifyBlobs b inner =
     (case inner of
        OtherTxData \<Rightarrow> Some ErrExpectedSignedBlobTx
      | SignedBlobTx hashes \<Rightarrow>
          if length hashes > MaxBlobsPerTx
          then Some (ErrTooManyBlobs (length hashes) MaxBlobsPerTx)
          else if length (BlobKzgs b) \<noteq> length (Blobs b)
          then Some (ErrKzgsBlobsMismatch (length (BlobKzgs b)) (length (Blobs b)))
          else if length (BlobKzgs b) \<noteq> length hashes
          then Some (ErrKzgsHashesMismatch (length (BlobKzgs b)) (length hashes))
          else (case checkWrapping_hashes Keccak256Hash (BlobKzgs b) 0 hashes of
                  Some err \<Rightarrow> Some err
                | None \<Rightarrow>
                    (case Commitments FromCompressedG1 (BlobKzgs b) of
                       Inl err \<Rightarrow> Some ErrInternalCommitmentError
                     | Inr commitments \<Rightarrow>
                         (case Blobs_Blobs (Blobs b) of
                            Inl err \<Rightarrow> Some ErrInternalBlobsError
                          | Inr blobs \<Rightarrow> VerifyBlobs commitments blobs))))"

subsection \<open>BlobTxWrapper: the container a BlobTxWrapData travels in\<close>

record 'tx BlobTxWrapper =
  wrapper_Tx :: 'tx
  wrapper_BlobKzgs :: "KZGCommitment list"
  wrapper_Blobs :: "Blob list"

text \<open>
  Modelled from the spec: the codec of \<open>SignedBlobTx\<close>, declared in another file of the
  repository. It is a field of variable size (\<open>FixedLength\<close> 0), taken here as two
  parameters: \<open>tx_enc\<close>, the bytes its \<open>Serialize\<close> writes, and \<open>tx_dec\<close>, the value its
  \<open>Deserialize\<close> makes of the bytes of its scope, if any.
\<close>

definition Tx_Serialize ::
  "('tx \<Rightarrow> byte list) \<Rightarrow> 'tx \<Rightarrow> EncodingWriter \<Rightarrow> error option \<times> EncodingWriter" where
  "Tx_Serialize tx_enc tx w = ew_Write (tx_enc tx) w"

definition Tx_ByteLength :: "('tx \<Rightarrow> byte list) \<Rightarrow> 'tx \<Rightarrow> nat" where
  "Tx_ByteLength tx_enc tx = length (tx_enc tx)"

definition Tx_Deserialize ::
  "(byte list \<Rightarrow> 'tx option) \<Rightarrow> 'tx \<Rightarrow> DecodingReader \<Rightarrow> error option \<times> 'tx \<times> DecodingReader" where
  "Tx_Deserialize tx_dec tx dr =
     (case dr_Read (replicate (dr_Scope dr) 0) dr of
        (p, Some e, dr') \<Rightarrow> (Some e, tx, dr')
      | (p, None, dr') \<Rightarrow>
          (case tx_dec p of
             None \<Rightarrow> (Some ErrTxDecode, tx, dr')
           | Some tx' \<Rightarrow> (None, tx', dr')))"

text \<open>
  Modelled from the spec: the offsets of an SSZ container are 4 bytes each, little-endian,
  counted from the start of the container.
\<close>

fun le_bytes :: "nat \<Rightarrow> nat \<Rightarrow> byte list" where
  "le_bytes 0 v = []"
| "le_bytes (Suc k) v = of_nat v # le_bytes k (v div 256)"

definition WriteOffset :: "nat \<Rightarrow> EncodingWriter \<Rightarrow> error option \<times> EncodingWriter" where
  "WriteOffset off w = ew_Write (le_bytes 4 off) w"

definition ReadOffset :: "DecodingReader \<Rightarrow> nat \<times> error option \<times> DecodingReader" where
  "ReadOffset dr = (case dr_Read (replicate 4 0) dr of (p, err, dr') \<Rightarrow> (le_nat p, err, dr'))"

text \<open>
  Modelled from the spec: a field of variable size is read in a scope of its own, of as
  many bytes as its offset and the next one (or the end of the container) leave it; it has
  to read its scope to the end, and the container's index moves on by what it read.
\<close>

definition dr_scoped ::
  "('a \<Rightarrow> DecodingReader \<Rightarrow> error option \<times> 'a \<times> DecodingReader) \<Rightarrow> nat \<Rightarrow> 'a \<Rightarrow> DecodingReader
     \<Rightarrow> error option \<times> 'a \<times> DecodingReader" where
  "dr_scoped deser count x dr =
     (if dr_Scope dr < count then (Some (ErrContainerScope count (dr_Scope dr)), x, dr)
      else (case deser x \<lparr>dr_input = dr_input dr, dr_i = 0, dr_max = count\<rparr> of
              (Some e, x', sub) \<Rightarrow>
                (Some e, x', dr\<lparr>dr_input := dr_input sub, dr_i := dr_i dr + dr_i sub\<rparr>)
            | (None, x', sub) \<Rightarrow>
                if dr_i sub \<noteq> dr_max sub
                then (Some ErrContainerNotFullyRead, x',
                      dr\<lparr>dr_input := dr_input sub, dr_i := dr_i dr + dr_i sub\<rparr>)
                else (None, x', dr\<lparr>dr_input := dr_input sub, dr_i := dr_i dr + dr_i sub\<rparr>)))"

text \<open>
  Modelled from the spec: \<open>w.Container\<close> and \<open>dr.Container\<close> of ztyp on the three
  fields of the wrapper, all of variable size: three offsets, then the fields in order.
  The first offset is the length of the fixed part, 12.
\<close>

definition BlobTxWrapper_Serialize ::
  "('tx \<Rightarrow> byte list) \<Rightarrow> nat \<Rightarrow> 'tx BlobTxWrapper \<Rightarrow> EncodingWriter \<Rightarrow> error option \<times> EncodingWriter" where
  "BlobTxWrapper_Serialize tx_enc FieldElementsPerBlob txw w =
     (let o1 = 12;
          o2 = o1 + Tx_ByteLength tx_enc (wrapper_Tx txw);
          o3 = o2 + BlobKzgs_ByteLength (wrapper_BlobKzgs txw)
      in case WriteOffset o1 w of
           (Some e, w1) \<Rightarrow> (Some e, w1)
         | (None, w1) \<Rightarrow>
        (case WriteOffset o2 w1 of
           (Some e, w2) \<Rightarrow> (Some e, w2)
         | (None, w2) \<Rightarrow>
        (case WriteOffset o3 w2 of
           (Some e, w3) \<Rightarrow> (Some e, w3)
         | (None, w3) \<Rightarrow>
        (case Tx_Serialize tx_enc (wrapper_Tx txw) w3 of
           (Some e, w4) \<Rightarrow> (Some e, w4)
         | (None, w4) \<Rightarrow>
        (case BlobKzgs_Serialize (wrapper_BlobKzgs txw) w4 of
           (Some e, w5) \<Rightarrow> (Some e, w5)
         | (None, w5) \<Rightarrow> Blobs_Serialize FieldElementsPerBlob (wrapper_Blobs txw) w5)))))"

definition BlobTxWrapper_Deserialize ::
  "(byte list \<Rightarrow> 'tx option) \<Rightarrow> nat \<Rightarrow> 'tx BlobTxWrapper \<Rightarrow> DecodingReader
     \<Rightarrow> error option \<times> 'tx BlobTxWrapper \<times> DecodingReader" where
  "BlobTxWrapper_Deserialize tx_dec FieldElementsPerBlob txw dr =
     (if dr_Scope dr < 12 then (Some (ErrContainerScope 12 (dr_Scope dr)), txw, dr)
      else
        (case ReadOffset dr of
           (o1, Some e, dr1) \<Rightarrow> (Some e, txw, dr1)
         | (o1, None, dr1) \<Rightarrow>
        (case ReadOffset dr1 of
           (o2, Some e, dr2) \<Rightarrow> (Some e, txw, dr2)
         | (o2, None, dr2) \<Rightarrow>
        (case ReadOffset dr2 of
           (o3, Some e, dr3) \<Rightarrow> (Some e, txw, dr3)
         | (o3, None, dr3) \<Rightarrow>
             if o1 \<noteq> 12 then (Some (ErrContainerOffset o1 12), txw, dr3)
             else if o2 < o1 then (Some (ErrContainerOffset o2 o1), txw, dr3)
             else if o3 < o2 then (Some (ErrContainerOffset o3 o2), txw, dr3)
             else
               (case dr_scoped (Tx_Deserialize tx_dec) (o2 - o1) (wrapper_Tx txw) dr3 of
                  (Some e, tx', dr4) \<Rightarrow> (Some e, txw\<lparr>wrapper_Tx := tx'\<rparr>, dr4)
                | (None, tx', dr4) \<Rightarrow>
               (case dr_scoped BlobKzgs_Deserialize (o3 - o2) (wrapper_BlobKzgs txw) dr4 of
                  (Some e, kzgs', dr5) \<Rightarrow>
                    (Some e, txw\<lparr>wrapper_Tx := tx', wrapper_BlobKzgs := kzgs'\<rparr>, dr5)
                | (None, kzgs', dr5) \<Rightarrow>
               (case dr_scoped (Blobs_Deserialize FieldElementsPerBlob) (dr_Scope dr5)
                       (wrapper_Blobs txw) dr5 of
                  (e, blobs', dr6) \<Rightarrow>
                    (e, txw\<lparr>wrapper_Tx := tx', wrapper_BlobKzgs := kzgs',
                              wrapper_Blobs := blobs'\<rparr>, dr6))))))))"

subsection \<open>Notions of the specification\<close>

text \<open>
  The words the claims are stated in: a hex character of either case, a lowercase hex
  character, a text with one leading \<open>0x\<close> or \<open>0X\<close> taken off, the uppercase form of a
  letter among the hex digits, and a text changed by uppercasing some of its characters.
\<close>

definition is_hex_char :: "char \<Rightarrow> bool" where
  "is_hex_char c \<longleftrightarrow> c \<in> set ''0123456789abcdefABCDEF''"

definition is_lower_hex_char :: "char \<Rightarrow> bool" where
  "is_lower_hex_char c \<longleftrightarrow> c \<in> set ''0123456789abcdef''"

definition strip_0x :: "string \<Rightarrow> string" where
  "strip_0x text = (if take 2 text = ''0x'' \<or> take 2 text = ''0X'' then drop 2 text else text)"

definition upper_hex :: "char \<Rightarrow> char" where
  "upper_hex c =
     (if c = CHR ''a'' then CHR ''A'' else if c = CHR ''b'' then CHR ''B''
      else if c = CHR ''c'' then CHR ''C'' else if c = CHR ''d'' then CHR ''D''
      else if c = CHR ''e'' then CHR ''E'' else if c = CHR ''f'' then CHR ''F'' else c)"

definition partly_uppercased :: "string \<Rightarrow> string \<Rightarrow> bool" where
  "partly_uppercased s t \<longleftrightarrow> list_all2 (\<lambda>c d. d = c \<or> d = upper_hex c) t s"

text \<open>The type invariants of the arrays: 48 bytes a commitment, 32 bytes a scalar.\<close>

definition wf_kzgs :: "KZGCommitment list \<Rightarrow> bool" where
  "wf_kzgs li \<longleftrightarrow> list_all (\<lambda>p. length p = 48) li"

definition wf_scalars :: "BLSFieldElement list \<Rightarrow> bool" where
  "wf_scalars es \<longleftrightarrow> list_all (\<lambda>e. length e = 32) es"

text \<open>A well-formed blob holds exactly \<open>FieldElementsPerBlob\<close> scalars.\<close>

definition wf_blob :: "nat \<Rightarrow> Blob \<Rightarrow> bool" where
  "wf_blob FieldElementsPerBlob blob \<longleftrightarrow>
     length (elems blob) = FieldElementsPerBlob \<and> wf_scalars (elems blob)"

definition wf_blobs :: "nat \<Rightarrow> Blob list \<Rightarrow> bool" where
  "wf_blobs FieldElementsPerBlob a \<longleftrightarrow> list_all (wf_blob FieldElementsPerBlob) a"

text \<open>
  The counts of a wrapping agree with the declared hashes and respect the bound; every
  declared hash is the versioned hash of the commitment at its index.
\<close>

definition counts_ok :: "nat \<Rightarrow> BlobTxWrapData \<Rightarrow> byte list list \<Rightarrow> bool" where
  "counts_ok MaxBlobsPerTx b hashes \<longleftrightarrow>
     length hashes \<le> MaxBlobsPerTx \<and> length (BlobKzgs b) = length (Blobs b)
     \<and> length (BlobKzgs b) = length hashes"

definition hashes_match :: "(byte list \<Rightarrow> byte list) \<Rightarrow> BlobTxWrapData \<Rightarrow> byte list list \<Rightarrow> bool" where
  "hashes_match Keccak256Hash b hashes \<longleftrightarrow>
     (\<forall>j < length hashes. ComputeVersionedHash Keccak256Hash (BlobKzgs b ! j) = hashes ! j)"

subsection \<open>Example parameters\<close>

text \<open>A stand-in for the digest, for the concrete instances of the theorems below.\<close>

definition example_digest :: "byte list \<Rightarrow> byte list" where
  "example_digest bs = take 32 (map (\<lambda>b. b + 1) bs @ replicate 32 7)"

text \<open>
  Stand-ins for point decompression and for the batch verification, and a wrapping of two
  commitments and two blobs of one scalar each.
\<close>

definition example_point :: "byte list \<Rightarrow> error + nat" where
  "example_point bs = (if hd bs = 0xFF then Inl ErrEOF else Inr (unat (hd bs)))"

definition example_verify :: "nat list \<Rightarrow> nat list list \<Rightarrow> error option" where
  "example_verify points blobs = (if map (\<lambda>p. [p]) points = blobs then None else Some ErrVerifyBlobs)"

definition example_wrap :: BlobTxWrapData where
  "example_wrap =
     \<lparr>BlobKzgs = [replicate 48 1, replicate 48 2],
      Blobs = [\<lparr>elems = [1 # replicate 31 0], spare = []\<rparr>,
               \<lparr>elems = [2 # replicate 31 0], spare = []\<rparr>]\<rparr>"

text \<open>Stand-ins for the commitment scheme and for the compression of a point.\<close>

definition example_BlobToKzg :: "nat list \<Rightarrow> nat" where
  "example_BlobToKzg frs = sum_list frs"

definition example_ToCompressedG1 :: "nat \<Rightarrow> byte list" where
  "example_ToCompressedG1 g = replicate 48 (of_nat g)"

text \<open>A blob of two scalars.\<close>

definition example_blob :: Blob where
  "example_blob = \<lparr>elems = [1 # replicate 31 0, 2 # replicate 31 0], spare = []\<rparr>"

text \<open>
  A stand-in for the codec of the transaction body (a nonce in 8 bytes), and a wrapper
  of two commitments and two blobs.
\<close>

definition example_tx_enc :: "nat \<Rightarrow> byte list" where
  "example_tx_enc nonce = le_bytes 8 nonce"

definition example_tx_dec :: "byte list \<Rightarrow> nat option" where
  "example_tx_dec bs = (if length bs = 8 then Some (le_nat bs) else None)"

definition example_wrapper :: "nat BlobTxWrapper" where
  "example_wrapper =
     \<lparr>wrapper_Tx = 5, wrapper_BlobKzgs = [replicate 48 1, replicate 48 2],
      wrapper_Blobs = [example_blob, example_blob]\<rparr>"

section \<open>Properties\<close>

subsection \<open>The versioned hash\<close>

text \<open>
  Claim C2. \<open>ComputeVersionedHash\<close> is a total function of the commitment alone (no
  state, no error result). For every commitment, with a digest of 32 bytes, the result has
  32 bytes, its byte 0 is \<open>0x01\<close>, and its bytes 1 to 31 are those of the digest of the
  commitment's bytes.
\<close>

theorem ComputeVersionedHash_version_and_digest:
  assumes "length (Keccak256Hash p) = 32"
  shows "length (ComputeVersionedHash Keccak256Hash p) = 32
       \<and> ComputeVersionedHash Keccak256Hash p ! 0 = 0x01
       \<and> (\<forall>i. 1 \<le> i \<and> i < 32 \<longrightarrow>
            ComputeVersionedHash Keccak256Hash p ! i = Keccak256Hash p ! i)"
  using assms by (simp add: ComputeVersionedHash_def BLOB_COMMITMENT_VERSION_KZG_def Let_def)

theorem ComputeVersionedHash_version_and_digest_witness:
  "length (example_digest (replicate 48 0xAB)) = 32
   \<and> ComputeVersionedHash example_digest (replicate 48 0xAB) ! 0 = 0x01
   \<and> ComputeVersionedHash example_digest (replicate 48 0xAB) ! 5
       = example_digest (replicate 48 0xAB) ! 5"
proof -
  have h: "length (example_digest (replicate 48 0xAB)) = 32"
    by (simp add: example_digest_def)
  show ?thesis
    using h ComputeVersionedHash_version_and_digest [of example_digest "replicate 48 0xAB"]
    by simp
qed

subsection \<open>The Merkle root of a commitment\<close>

text \<open>
  Claim C5. For every commitment \<open>p\<close> (48 bytes), \<open>HashTreeRoot\<close> applies the hash
  function of two children to the first 32 bytes of \<open>p\<close> and to its last 16 bytes
  followed by 16 zero bytes.
\<close>

theorem HashTreeRoot_two_chunks:
  assumes "length p = 48"
  shows "KZGCommitment_HashTreeRoot p hFn = hFn (take 32 p) (drop 32 p @ replicate 16 0)"
  using assms by (simp add: KZGCommitment_HashTreeRoot_def go_copy_def Let_def min_def)

theorem HashTreeRoot_two_chunks_witness:
  "length (replicate 48 (0x11 :: byte)) = 48
   \<and> KZGCommitment_HashTreeRoot (replicate 48 0x11) (\<lambda>a b. (a, b))
       = (replicate 32 0x11, replicate 16 0x11 @ replicate 16 0)"
  using HashTreeRoot_two_chunks [of "replicate 48 0x11" "\<lambda>a b. (a, b)"] by simp

subsection \<open>Nil receivers\<close>

text \<open>
  Claim C9. On a nil receiver \<open>Deserialize\<close> and \<open>UnmarshalText\<close> return an error
  and no commitment; \<open>Deserialize\<close> leaves the reader as it was, so nothing of the
  input is consumed.
\<close>

theorem nil_receiver_returns_error:
  "KZGCommitment_Deserialize None dr = (Some ErrNilPubkey, None, dr)
   \<and> UnmarshalText None text = (Some ErrNilKZGCommitment, None)"
  by (simp add: KZGCommitment_Deserialize_def UnmarshalText_def)

subsection \<open>The check of a wrapping\<close>

lemma checkWrapping_hashes_first_mismatch:
  "i0 + length hs \<le> length kzgs \<Longrightarrow> k < length hs
   \<Longrightarrow> (\<forall>j<k. ComputeVersionedHash K (kzgs ! (i0 + j)) = hs ! j)
   \<Longrightarrow> ComputeVersionedHash K (kzgs ! (i0 + k)) \<noteq> hs ! k
   \<Longrightarrow> checkWrapping_hashes K kzgs i0 hs
       = Some (ErrVersionedHashMismatch (i0 + k) (hs ! k) (ComputeVersionedHash K (kzgs ! (i0 + k))))"
proof (induction hs arbitrary: i0 k)
  case Nil
  then show ?case by simp
next
  case (Cons h hs)
  show ?case
  proof (cases k)
    case 0
    with Cons.prems show ?thesis by (simp add: Let_def)
  next
    case (Suc k')
    from Cons.prems Suc have h0: "ComputeVersionedHash K (kzgs ! i0) = h"
      by (metis add.right_neutral nth_Cons_0 zero_less_Suc)
    have step: "\<forall>j<k'. ComputeVersionedHash K (kzgs ! (Suc i0 + j)) = hs ! j"
    proof (intro allI impI)
      fix j assume "j < k'"
      then have "Suc j < k" using Suc by simp
      with Cons.prems(3) have "ComputeVersionedHash K (kzgs ! (i0 + Suc j)) = (h # hs) ! Suc j"
        by blast
      then show "ComputeVersionedHash K (kzgs ! (Suc i0 + j)) = hs ! j" by simp
    qed
    have "checkWrapping_hashes K kzgs (Suc i0) hs
          = Some (ErrVersionedHashMismatch (Suc i0 + k') (hs ! k')
                    (ComputeVersionedHash K (kzgs ! (Suc i0 + k'))))"
      using Cons.prems Suc step by (intro Cons.IH) auto
    with Cons.prems Suc h0 show ?thesis by (simp add: Let_def)
  qed
qed

lemma checkWrapping_hashes_all_match:
  "i0 + length hs \<le> length kzgs
   \<Longrightarrow> (\<forall>j<length hs. ComputeVersionedHash K (kzgs ! (i0 + j)) = hs ! j)
   \<Longrightarrow> checkWrapping_hashes K kzgs i0 hs = None"
proof (induction hs arbitrary: i0)
  case Nil
  then show ?case by simp
next
  case (Cons h hs)
  from Cons.prems have h0: "ComputeVersionedHash K (kzgs ! i0) = h"
    by (metis add.right_neutral length_greater_0_conv list.distinct(1) nth_Cons_0)
  have step: "\<forall>j<length hs. ComputeVersionedHash K (kzgs ! (Suc i0 + j)) = hs ! j"
  proof (intro allI impI)
    fix j assume "j < length hs"
    then have "Suc j < length (h # hs)" by simp
    with Cons.prems(2) have "ComputeVersionedHash K (kzgs ! (i0 + Suc j)) = (h # hs) ! Suc j"
      by blast
    then show "ComputeVersionedHash K (kzgs ! (Suc i0 + j)) = hs ! j" by simp
  qed
  have "checkWrapping_hashes K kzgs (Suc i0) hs = None"
    using Cons.prems step by (intro Cons.IH) auto
  with Cons.prems h0 show ?case by (simp add: Let_def)
qed

lemma Commitments_loop_ok:
  "(\<forall>c\<in>set li. \<not> isl (F c))
   \<Longrightarrow> Commitments_loop F points li = Inr (points @ map (projr \<circ> F) li)"
proof (induction li arbitrary: points)
  case Nil
  then show ?case by simp
next
  case (Cons c li)
  then obtain g where g: "F c = Inr g" by (cases "F c") auto
  with Cons show ?case by (simp add: Point_def)
qed

lemma Commitments_loop_fails:
  "(\<exists>c\<in>set li. isl (F c)) \<Longrightarrow> Commitments_loop F points li = Inl ErrInternalErrorCommitments"
proof (induction li arbitrary: points)
  case Nil
  then show ?case by simp
next
  case (Cons c li)
  show ?case
  proof (cases "F c")
    case (Inl e)
    then show ?thesis by (simp add: Point_def)
  next
    case (Inr g)
    with Cons.prems have "\<exists>c\<in>set li. isl (F c)" by auto
    with Inr Cons.IH show ?thesis by (simp add: Point_def)
  qed
qed

lemma Blobs_chunks_ok:
  "(\<forall>e\<in>set es. FrFrom32 e \<noteq> None)
   \<Longrightarrow> Blobs_chunks acc es = Inr (acc @ map (the \<circ> FrFrom32) es)"
  by (induction es arbitrary: acc) auto

lemma Blobs_chunks_fails:
  "(\<exists>e\<in>set es. FrFrom32 e = None) \<Longrightarrow> Blobs_chunks acc es = Inl ErrInternalErrorCommitments"
proof (induction es arbitrary: acc)
  case Nil
  then show ?case by simp
next
  case (Cons e es)
  then show ?case by (cases "FrFrom32 e") auto
qed

lemma Blobs_loop_ok:
  "(\<forall>b\<in>set blobs. \<forall>e\<in>set (elems b). FrFrom32 e \<noteq> None)
   \<Longrightarrow> Blobs_loop acc blobs = Inr (acc @ map (map (the \<circ> FrFrom32) \<circ> elems) blobs)"
  by (induction blobs arbitrary: acc) (auto simp: Blobs_chunks_ok)

lemma Blobs_loop_fails:
  "(\<exists>b\<in>set blobs. \<exists>e\<in>set (elems b). FrFrom32 e = None)
   \<Longrightarrow> \<exists>err. Blobs_loop acc blobs = Inl err"
proof (induction blobs arbitrary: acc)
  case Nil
  then show ?case by simp
next
  case (Cons b blobs)
  show ?case
  proof (cases "\<exists>e\<in>set (elems b). FrFrom32 e = None")
    case True
    then show ?thesis by (simp add: Blobs_chunks_fails)
  next
    case False
    then have ok: "\<forall>e\<in>set (elems b). FrFrom32 e \<noteq> None" by simp
    from False Cons.prems have "\<exists>b\<in>set blobs. \<exists>e\<in>set (elems b). FrFrom32 e = None" by auto
    from Cons.IH [OF this] show ?thesis by (simp add: Blobs_chunks_ok [OF ok])
  qed
qed

text \<open>
  Claim C1. On a signed blob transaction \<open>checkWrapping\<close> returns the first failure in
  this order: more declared hashes than \<open>MaxBlobsPerTx\<close>; a count of commitments other
  than the count of blobs; a count of commitments other than the count of hashes; the
  first index \<open>i\<close> whose versioned hash differs from the declared one (index 0 when
  hash 0 is wrong, whatever the later ones are); a commitment that is no curve point;
  a blob scalar that is no field element; and else the result of the batch verification,
  unchanged.
\<close>

theorem checkWrapping_ordered_fail_fast:
  fixes b :: BlobTxWrapData and F :: "byte list \<Rightarrow> error + 'g"
  shows
  "(length hashes > M \<longrightarrow>
      checkWrapping M K F V b (SignedBlobTx hashes) = Some (ErrTooManyBlobs (length hashes) M))
 \<and> (length hashes \<le> M \<and> length (BlobKzgs b) \<noteq> length (Blobs b) \<longrightarrow>
      checkWrapping M K F V b (SignedBlobTx hashes)
        = Some (ErrKzgsBlobsMismatch (length (BlobKzgs b)) (length (Blobs b))))
 \<and> (length hashes \<le> M \<and> length (BlobKzgs b) = length (Blobs b)
      \<and> length (BlobKzgs b) \<noteq> length hashes \<longrightarrow>
      checkWrapping M K F V b (SignedBlobTx hashes)
        = Some (ErrKzgsHashesMismatch (length (BlobKzgs b)) (length hashes)))
 \<and> (counts_ok M b hashes \<and> i < length hashes
      \<and> (\<forall>j<i. ComputeVersionedHash K (BlobKzgs b ! j) = hashes ! j)
      \<and> ComputeVersionedHash K (BlobKzgs b ! i) \<noteq> hashes ! i \<longrightarrow>
      checkWrapping M K F V b (SignedBlobTx hashes)
        = Some (ErrVersionedHashMismatch i (hashes ! i) (ComputeVersionedHash K (BlobKzgs b ! i))))
 \<and> (counts_ok M b hashes \<and> hashes \<noteq> []
      \<and> ComputeVersionedHash K (BlobKzgs b ! 0) \<noteq> hashes ! 0 \<longrightarrow>
      checkWrapping M K F V b (SignedBlobTx hashes)
        = Some (ErrVersionedHashMismatch 0 (hashes ! 0) (ComputeVersionedHash K (BlobKzgs b ! 0))))
 \<and> (counts_ok M b hashes \<and> hashes_match K b hashes \<and> (\<exists>c\<in>set (BlobKzgs b). isl (F c)) \<longrightarrow>
      checkWrapping M K F V b (SignedBlobTx hashes) = Some ErrInternalCommitmentError)
 \<and> (counts_ok M b hashes \<and> hashes_match K b hashes \<and> (\<forall>c\<in>set (BlobKzgs b). \<not> isl (F c))
      \<and> (\<exists>bl\<in>set (Blobs b). \<exists>e\<in>set (elems bl). FrFrom32 e = None) \<longrightarrow>
      checkWrapping M K F V b (SignedBlobTx hashes) = Some ErrInternalBlobsError)
 \<and> (counts_ok M b hashes \<and> hashes_match K b hashes \<and> (\<forall>c\<in>set (BlobKzgs b). \<not> isl (F c))
      \<and> (\<forall>bl\<in>set (Blobs b). \<forall>e\<in>set (elems bl). FrFrom32 e \<noteq> None) \<longrightarrow>
      checkWrapping M K F V b (SignedBlobTx hashes)
        = V (map (projr \<circ> F) (BlobKzgs b)) (map (map (the \<circ> FrFrom32) \<circ> elems) (Blobs b)))"
proof -
  let ?r = "checkWrapping M K F V b (SignedBlobTx hashes)"
  have c1: "length hashes > M \<Longrightarrow> ?r = Some (ErrTooManyBlobs (length hashes) M)"
    by (simp add: checkWrapping_def)
  have c2: "length hashes \<le> M \<and> length (BlobKzgs b) \<noteq> length (Blobs b) \<Longrightarrow>
      ?r = Some (ErrKzgsBlobsMismatch (length (BlobKzgs b)) (length (Blobs b)))"
    by (simp add: checkWrapping_def)
  have c3: "length hashes \<le> M \<and> length (BlobKzgs b) = length (Blobs b)
      \<and> length (BlobKzgs b) \<noteq> length hashes \<Longrightarrow>
      ?r = Some (ErrKzgsHashesMismatch (length (BlobKzgs b)) (length hashes))"
    by (simp add: checkWrapping_def)
  have c4: "?r = Some (ErrVersionedHashMismatch i (hashes ! i) (ComputeVersionedHash K (BlobKzgs b ! i)))"
    if "counts_ok M b hashes" "i < length hashes"
       "\<forall>j<i. ComputeVersionedHash K (BlobKzgs b ! j) = hashes ! j"
       "ComputeVersionedHash K (BlobKzgs b ! i) \<noteq> hashes ! i" for i
  proof -
    have "checkWrapping_hashes K (BlobKzgs b) 0 hashes
          = Some (ErrVersionedHashMismatch (0 + i) (hashes ! i)
                    (ComputeVersionedHash K (BlobKzgs b ! (0 + i))))"
      using that by (intro checkWrapping_hashes_first_mismatch) (auto simp: counts_ok_def)
    with that(1) show ?thesis by (simp add: checkWrapping_def counts_ok_def)
  qed
  have c5: "?r = Some (ErrVersionedHashMismatch 0 (hashes ! 0) (ComputeVersionedHash K (BlobKzgs b ! 0)))"
    if "counts_ok M b hashes" "hashes \<noteq> []" "ComputeVersionedHash K (BlobKzgs b ! 0) \<noteq> hashes ! 0"
    using that c4 [of 0] by simp
  have hs: "checkWrapping_hashes K (BlobKzgs b) 0 hashes = None"
    if "counts_ok M b hashes" "hashes_match K b hashes"
    using that by (intro checkWrapping_hashes_all_match) (auto simp: counts_ok_def hashes_match_def)
  have c6: "?r = Some ErrInternalCommitmentError"
    if "counts_ok M b hashes" "hashes_match K b hashes" "\<exists>c\<in>set (BlobKzgs b). isl (F c)"
    using that hs Commitments_loop_fails [OF that(3), of "[]"]
    by (simp add: checkWrapping_def counts_ok_def Commitments_def)
  have c7: "?r = Some ErrInternalBlobsError"
    if h: "counts_ok M b hashes" "hashes_match K b hashes" "\<forall>c\<in>set (BlobKzgs b). \<not> isl (F c)"
       "\<exists>bl\<in>set (Blobs b). \<exists>e\<in>set (elems bl). FrFrom32 e = None"
  proof -
    obtain err where "Blobs_loop [] (Blobs b) = Inl err"
      using Blobs_loop_fails [OF h(4)] by blast
    then show ?thesis
      using h(1) hs [OF h(1,2)] Commitments_loop_ok [OF h(3), of "[]"]
      by (simp add: checkWrapping_def counts_ok_def Commitments_def Blobs_Blobs_def)
  qed
  have c8: "?r = V (map (projr \<circ> F) (BlobKzgs b)) (map (map (the \<circ> FrFrom32) \<circ> elems) (Blobs b))"
    if "counts_ok M b hashes" "hashes_match K b hashes" "\<forall>c\<in>set (BlobKzgs b). \<not> isl (F c)"
       "\<forall>bl\<in>set (Blobs b). \<forall>e\<in>set (elems bl). FrFrom32 e \<noteq> None"
    using that(1) hs [OF that(1,2)] Commitments_loop_ok [OF that(3), of "[]"]
      Blobs_loop_ok [OF that(4), of "[]"]
    by (simp add: checkWrapping_def counts_ok_def Commitments_def Blobs_Blobs_def)
  show ?thesis
    using c1 c2 c3 c4 c5 c6 c7 c8 by blast
qed

subsection \<open>Concrete values\<close>

lemma replicate_32: "replicate 32 x = x # replicate 31 x"
proof -
  have "(32::nat) = Suc 31" by simp
  then show ?thesis by (simp only: replicate_Suc)
qed

lemma le_nat_zeros: "le_nat (replicate n 0) = 0"
  by (induction n) simp_all

lemma example_digest_replicate_48: "example_digest (replicate 48 x) = replicate 32 (x + 1)"
  by (simp add: example_digest_def)

lemma example_hashes:
  "ComputeVersionedHash example_digest (replicate 48 1) = 1 # replicate 31 2"
  "ComputeVersionedHash example_digest (replicate 48 2) = 1 # replicate 31 3"
  by (simp_all add: ComputeVersionedHash_def example_digest_replicate_48
      BLOB_COMMITMENT_VERSION_KZG_def replicate_32)

lemma example_scalars:
  "FrFrom32 (1 # replicate 31 0) = Some 1" "FrFrom32 (2 # replicate 31 0) = Some 2"
  by (simp_all add: FrFrom32_def BLS_MODULUS_def le_nat_zeros)

lemma example_points:
  "example_point (replicate 48 1) = Inr 1" "example_point (replicate 48 2) = Inr 2"
proof -
  have "(48::nat) = Suc 47" by simp
  then have "hd (replicate 48 x) = x" for x :: byte by (simp only: replicate_Suc list.sel)
  then show "example_point (replicate 48 1) = Inr 1" "example_point (replicate 48 2) = Inr 2"
    by (simp_all add: example_point_def)
qed

theorem checkWrapping_ordered_fail_fast_witness:
  "counts_ok 2 example_wrap [replicate 32 0, replicate 32 0]
   \<and> ComputeVersionedHash example_digest (BlobKzgs example_wrap ! 0) \<noteq> [replicate 32 0, replicate 32 0] ! 0
   \<and> ComputeVersionedHash example_digest (BlobKzgs example_wrap ! 1) \<noteq> [replicate 32 0, replicate 32 0] ! 1
   \<and> checkWrapping 2 example_digest example_point example_verify example_wrap
        (SignedBlobTx [replicate 32 0, replicate 32 0])
      = Some (ErrVersionedHashMismatch 0 (replicate 32 0) (1 # replicate 31 2))
   \<and> counts_ok 2 example_wrap [1 # replicate 31 2, 1 # replicate 31 3]
   \<and> hashes_match example_digest example_wrap [1 # replicate 31 2, 1 # replicate 31 3]
   \<and> checkWrapping 2 example_digest example_point example_verify example_wrap
        (SignedBlobTx [1 # replicate 31 2, 1 # replicate 31 3]) = None"
proof -
  have a: "counts_ok 2 example_wrap [replicate 32 0, replicate 32 0]"
    and b: "counts_ok 2 example_wrap [1 # replicate 31 2, 1 # replicate 31 3]"
    by (simp_all add: counts_ok_def example_wrap_def)
  have c: "ComputeVersionedHash example_digest (BlobKzgs example_wrap ! 0) \<noteq> [replicate 32 0, replicate 32 0] ! 0"
    and d: "ComputeVersionedHash example_digest (BlobKzgs example_wrap ! 1) \<noteq> [replicate 32 0, replicate 32 0] ! 1"
    by (simp_all add: example_wrap_def example_hashes replicate_32)
  have e: "hashes_match example_digest example_wrap [1 # replicate 31 2, 1 # replicate 31 3]"
    by (simp add: hashes_match_def example_wrap_def example_hashes less_Suc_eq numeral_2_eq_2)
  have f: "\<forall>c\<in>set (BlobKzgs example_wrap). \<not> isl (example_point c)"
    by (simp add: example_wrap_def example_points)
  have g: "\<forall>bl\<in>set (Blobs example_wrap). \<forall>e\<in>set (elems bl). FrFrom32 e \<noteq> None"
    by (simp add: example_wrap_def example_scalars)
  have r1: "checkWrapping 2 example_digest example_point example_verify example_wrap
        (SignedBlobTx [replicate 32 0, replicate 32 0])
      = Some (ErrVersionedHashMismatch 0 (replicate 32 0) (1 # replicate 31 2))"
    using a c
      checkWrapping_ordered_fail_fast [where M = 2 and K = example_digest and F = example_point
        and V = example_verify and b = example_wrap and hashes = "[replicate 32 0, replicate 32 0]"
        and i = 0]
    by (simp add: example_wrap_def example_hashes)
  have r2: "checkWrapping 2 example_digest example_point example_verify example_wrap
        (SignedBlobTx [1 # replicate 31 2, 1 # replicate 31 3]) = None"
    using b e f g
      checkWrapping_ordered_fail_fast [where M = 2 and K = example_digest and F = example_point
        and V = example_verify and b = example_wrap
        and hashes = "[1 # replicate 31 2, 1 # replicate 31 3]" and i = 0]
    by (simp add: example_wrap_def example_scalars example_points example_verify_def)
  show ?thesis using a b c d e r1 r2 by simp
qed

subsection \<open>The text form of a commitment\<close>

lemma unat_of_char: "unat (of_char c :: byte) = of_char c"
proof -
  have "(of_char c :: nat) < 256"
    by (metis of_char_mod_256 mod_less_divisor zero_less_numeral)
  moreover have "(of_char c :: byte) = of_nat (of_char c)"
    by (simp add: of_nat_of_char)
  ultimately show ?thesis
    by (simp add: unat_of_nat take_bit_nat_eq_self)
qed

lemma nibble_cases: "n < 16 \<Longrightarrow> n \<in> {0, 1, 2, 3, 4, 5, 6, 7, 8, 9, 10, 11, 12, 13, 14, 15 :: nat}"
  by (simp add: numeral_eq_Suc less_Suc_eq) 

lemma fromHexChar_hextable:
  "n < 16 \<Longrightarrow> d = hextable ! n \<or> d = upper_hex (hextable ! n) \<Longrightarrow> fromHexChar d = Some (of_nat n)"
  using nibble_cases [of n] by (auto simp: fromHexChar_def hextable_def upper_hex_def)

lemma hextable_lower: "n < 16 \<Longrightarrow> is_lower_hex_char (hextable ! n)"
  using nibble_cases [of n] by (auto simp: hextable_def is_lower_hex_char_def)

lemma byte_of_nibbles: "push_bit 4 (drop_bit 4 v) OR (v AND 0x0f) = (v :: byte)"
proof -
  have "(0x0f :: byte) = mask 4" by (simp add: mask_eq_exp_minus_1)
  then show ?thesis
    by (auto simp add: bit_eq_iff bit_simps)
qed

lemma high_nibble_less: "unat (drop_bit 4 (v :: byte)) < 16"
proof -
  have "unat v < 256" using unsigned_less [of v] by simp
  then show ?thesis by (simp add: drop_bit_eq_div unat_div)
qed

lemma low_nibble_less: "unat ((v :: byte) AND 0x0f) < 16"
proof -
  have "v AND 0x0f = take_bit 4 v"
    by (simp add: take_bit_eq_mask mask_eq_exp_minus_1)
  then have "unat (v AND 0x0f) = take_bit 4 (unat v)"
    by (simp add: unsigned_take_bit_eq)
  also have "\<dots> < 2 ^ 4" by (rule take_bit_nat_less_exp)
  finally show ?thesis by simp
qed

lemma is_hex_char_fromHexChar: "is_hex_char c \<Longrightarrow> fromHexChar c \<noteq> None"
  by (auto simp: is_hex_char_def fromHexChar_def)

lemma fromHexChar_is_hex_char:
  assumes "fromHexChar c = Some a"
  shows "is_hex_char c"
proof -
  let ?n = "of_char c :: nat"
  have r: "(48 \<le> ?n \<and> ?n \<le> 57) \<or> (97 \<le> ?n \<and> ?n \<le> 102) \<or> (65 \<le> ?n \<and> ?n \<le> 70)"
    using assms
    by (auto simp: fromHexChar_def Let_def word_le_nat_alt unat_of_char split: if_splits)
  then have "?n \<in> {48, 49, 50, 51, 52, 53, 54, 55, 56, 57, 97, 98, 99, 100, 101, 102,
                    65, 66, 67, 68, 69, 70}"
    by (simp only: insert_iff empty_iff) arith
  moreover have "(of_char ` set ''0123456789abcdefABCDEF'' :: nat set)
      = {48, 49, 50, 51, 52, 53, 54, 55, 56, 57, 97, 98, 99, 100, 101, 102, 65, 66, 67, 68, 69, 70}"
    by simp
  ultimately have "?n \<in> of_char ` set ''0123456789abcdefABCDEF''"
    by (simp only:)
  then obtain d where "d \<in> set ''0123456789abcdefABCDEF''" "?n = of_char d" by blast
  then show ?thesis by (simp only: of_char_eq_iff is_hex_char_def)
qed

lemma length_hex_EncodeToString: "length (hex_EncodeToString src) = 2 * length src"
  by (induction src) simp_all

lemma lower_hex_EncodeToString: "list_all is_lower_hex_char (hex_EncodeToString src)"
  by (induction src) (simp_all add: hextable_lower high_nibble_less low_nibble_less)

lemma hex_Decode_variant:
  "list_all2 (\<lambda>c d. d = c \<or> d = upper_hex c) (hex_EncodeToString src) t
   \<Longrightarrow> length dst = i + length src
   \<Longrightarrow> hex_Decode dst i t = (take i dst @ src, i + length src, None)"
proof (induction src arbitrary: dst i t)
  case Nil
  then show ?case by simp
next
  case (Cons v src)
  from Cons.prems(1) obtain c d t' where t: "t = c # d # t'"
    and c: "c = hextable ! unat (drop_bit 4 v) \<or> c = upper_hex (hextable ! unat (drop_bit 4 v))"
    and d: "d = hextable ! unat (v AND 0x0f) \<or> d = upper_hex (hextable ! unat (v AND 0x0f))"
    and t': "list_all2 (\<lambda>c d. d = c \<or> d = upper_hex c) (hex_EncodeToString src) t'"
    by (auto simp: list_all2_Cons1)
  have fc: "fromHexChar c = Some (drop_bit 4 v)"
    using fromHexChar_hextable [OF high_nibble_less c] by simp
  have fd: "fromHexChar d = Some (v AND 0x0f)"
    using fromHexChar_hextable [OF low_nibble_less d] by simp
  have len: "length (dst[i := v]) = Suc i + length src"
    using Cons.prems(2) by simp
  have "hex_Decode (dst[i := v]) (Suc i) t'
        = (take (Suc i) (dst[i := v]) @ src, Suc i + length src, None)"
    by (rule Cons.IH [OF t' len])
  moreover have "take (Suc i) (dst[i := v]) = take i dst @ [v]"
    using Cons.prems(2) by (simp add: take_Suc_conv_app_nth)
  ultimately show ?case
    using Cons.prems(2) by (simp add: t fc fd byte_of_nibbles)
qed

lemma hex_Decode_EncodeToString:
  "length dst = length src \<Longrightarrow> hex_Decode dst 0 (hex_EncodeToString src) = (src, length src, None)"
  using hex_Decode_variant [of src "hex_EncodeToString src" dst 0]
  by (simp add: list_all2_same)

lemma hex_Decode_ok_is_hex:
  "hex_Decode dst i src = (dst', n, None) \<Longrightarrow> list_all is_hex_char src"
  by (induction dst i src rule: hex_Decode.induct)
     (auto split: option.splits if_splits dest: fromHexChar_is_hex_char)

lemma UnmarshalText_strip:
  "(if length text \<ge> 2 \<and> text ! 0 = CHR ''0'' \<and> (text ! 1 = CHR ''x'' \<or> text ! 1 = CHR ''X'')
    then drop 2 text else text) = strip_0x text"
proof (cases "text")
  case Nil
  then show ?thesis by (simp add: strip_0x_def)
next
  case (Cons a text1)
  then show ?thesis by (cases text1) (auto simp: strip_0x_def)
qed

lemma hex_Decode_hex_ok:
  "list_all is_hex_char src \<Longrightarrow> even (length src) \<Longrightarrow> i + length src div 2 \<le> length dst
   \<Longrightarrow> \<exists>dst'. hex_Decode dst i src = (dst', i + length src div 2, None)"
proof (induction dst i src rule: hex_Decode.induct)
  case (1 dst i p q src)
  from "1.prems"(1) obtain a b where a: "fromHexChar p = Some a" and b: "fromHexChar q = Some b"
    using is_hex_char_fromHexChar by fastforce
  from "1.prems" have i: "i < length dst" by simp
  have "\<exists>dst'. hex_Decode (dst[i := push_bit 4 a OR b]) (Suc i) src
                = (dst', Suc i + length src div 2, None)"
    using "1.prems" by (intro "1.IH" [OF a b i]) simp_all
  then show ?case by (simp add: a b i)
next
  case (2 dst i p)
  then show ?case by simp
next
  case (3 dst i)
  then show ?case by simp
qed

lemma UnmarshalText_unfold:
  "UnmarshalText (Some q) text =
     (if length (strip_0x text) \<noteq> 96 then (Some (ErrUnexpectedLength (strip_0x text)), Some q)
      else (case hex_Decode q 0 (strip_0x text) of (pv', n, err) \<Rightarrow> (err, Some pv')))"
  by (simp only: UnmarshalText_def UnmarshalText_strip option.case Let_def)

lemma UnmarshalText_ok_iff:
  assumes "length q = 48"
  shows "fst (UnmarshalText (Some q) text) = None
         \<longleftrightarrow> length (strip_0x text) = 96 \<and> list_all is_hex_char (strip_0x text)"
proof (cases "length (strip_0x text) = 96")
  case False
  then show ?thesis by (simp add: UnmarshalText_unfold)
next
  case True
  show ?thesis
  proof (cases "list_all is_hex_char (strip_0x text)")
    case hex: True
    have "\<exists>dst'. hex_Decode q 0 (strip_0x text) = (dst', 0 + length (strip_0x text) div 2, None)"
      using True assms by (intro hex_Decode_hex_ok [OF hex]) simp_all
    then show ?thesis using True hex by (auto simp: UnmarshalText_unfold)
  next
    case nohex: False
    obtain d n e where r: "hex_Decode q 0 (strip_0x text) = (d, n, e)"
      by (cases "hex_Decode q 0 (strip_0x text)") auto
    have "e \<noteq> None"
    proof
      assume "e = None"
      with r have "list_all is_hex_char (strip_0x text)" by (auto dest: hex_Decode_ok_is_hex)
      with nohex show False by simp
    qed
    with r True nohex show ?thesis by (simp add: UnmarshalText_unfold)
  qed
qed

lemma UnmarshalText_variant:
  assumes "length p = 48" and "length q = 48"
    and "list_all2 (\<lambda>c d. d = c \<or> d = upper_hex c) (''0x'' @ hex_EncodeToString p) s"
  shows "UnmarshalText (Some q) s = (None, Some p)"
proof -
  from assms(3) obtain s' where s: "s = ''0x'' @ s'"
    and s': "list_all2 (\<lambda>c d. d = c \<or> d = upper_hex c) (hex_EncodeToString p) s'"
    by (auto simp: list_all2_Cons1 upper_hex_def)
  have strip: "strip_0x s = s'" by (simp add: s strip_0x_def)
  have len: "length s' = 96"
    using list_all2_lengthD [OF s'] assms(1) by (simp add: length_hex_EncodeToString)
  have "hex_Decode q 0 s' = (take 0 q @ p, 0 + length p, None)"
    using assms(1,2) by (intro hex_Decode_variant [OF s']) simp
  then show ?thesis by (simp add: UnmarshalText_unfold strip len)
qed

text \<open>
  Claim C6. For every commitment \<open>p\<close>, \<open>MarshalText\<close> gives \<open>0x\<close> followed by 96
  lowercase hex characters, and \<open>UnmarshalText\<close> reads \<open>p\<close> back from it. With one
  leading \<open>0x\<close> or \<open>0X\<close> taken off, \<open>UnmarshalText\<close> succeeds exactly on the texts of
  96 hex characters, so it fails on every other input.
\<close>

theorem commitment_text_codec:
  assumes "length p = 48" and "length q = 48"
  shows "(\<exists>hs. MarshalText p = (''0x'' @ hs, None) \<and> length hs = 96
               \<and> list_all is_lower_hex_char hs)
       \<and> UnmarshalText (Some q) (fst (MarshalText p)) = (None, Some p)
       \<and> (fst (UnmarshalText (Some q) text) = None
            \<longleftrightarrow> length (strip_0x text) = 96 \<and> list_all is_hex_char (strip_0x text))"
proof (intro conjI)
  show "\<exists>hs. MarshalText p = (''0x'' @ hs, None) \<and> length hs = 96 \<and> list_all is_lower_hex_char hs"
    using assms(1)
    by (simp add: MarshalText_def length_hex_EncodeToString lower_hex_EncodeToString)
  have "list_all2 (\<lambda>c d. d = c \<or> d = upper_hex c) (''0x'' @ hex_EncodeToString p)
          (''0x'' @ hex_EncodeToString p)"
    by (simp only: list_all2_same) simp
  then show "UnmarshalText (Some q) (fst (MarshalText p)) = (None, Some p)"
    using UnmarshalText_variant [OF assms] by (simp add: MarshalText_def)
  show "fst (UnmarshalText (Some q) text) = None
            \<longleftrightarrow> length (strip_0x text) = 96 \<and> list_all is_hex_char (strip_0x text)"
    by (rule UnmarshalText_ok_iff [OF assms(2)])
qed

text \<open>
  Claim C10. Decoding does not depend on the case of the hex digits: every text got from
  \<open>MarshalText p\<close> by uppercasing some of its characters decodes to \<open>p\<close>.
\<close>

theorem UnmarshalText_case_insensitive:
  assumes "length p = 48" and "length q = 48"
    and "partly_uppercased s (fst (MarshalText p))"
  shows "UnmarshalText (Some q) s = (None, Some p)"
  using assms UnmarshalText_variant [of p q s]
  by (simp add: partly_uppercased_def MarshalText_def)

lemma hex_EncodeToString_ab: "hex_EncodeToString (replicate n 0xAB) = concat (replicate n ''ab'')"
proof -
  have "drop_bit 4 (0xAB :: byte) = 0xA" "(0xAB :: byte) AND 0x0f = 0xB"
    by (simp_all add: drop_bit_eq_div)
  then show ?thesis by (induction n) (simp_all add: hextable_def)
qed

lemma list_all2_concat_replicate:
  "list_all2 P xs ys \<Longrightarrow> list_all2 P (concat (replicate n xs)) (concat (replicate n ys))"
  by (induction n) (simp_all add: list_all2_appendI)

theorem commitment_text_codec_witness:
  "length (replicate 48 (0xAB :: byte)) = 48 \<and> length (replicate 48 (0 :: byte)) = 48
   \<and> MarshalText (replicate 48 0xAB) = (''0x'' @ concat (replicate 48 ''ab''), None)
   \<and> UnmarshalText (Some (replicate 48 0)) (''0x'' @ concat (replicate 48 ''ab''))
       = (None, Some (replicate 48 0xAB))
   \<and> fst (UnmarshalText (Some (replicate 48 0)) ''0xzz'') \<noteq> None"
  using commitment_text_codec [of "replicate 48 0xAB" "replicate 48 0" "''0xzz''"]
  by (simp add: MarshalText_def hex_EncodeToString_ab strip_0x_def)

theorem UnmarshalText_case_insensitive_witness:
  "length (replicate 48 (0xAB :: byte)) = 48 \<and> length (replicate 48 (0 :: byte)) = 48
   \<and> partly_uppercased (''0x'' @ concat (replicate 48 ''Ab'')) (fst (MarshalText (replicate 48 0xAB)))
   \<and> UnmarshalText (Some (replicate 48 0)) (''0x'' @ concat (replicate 48 ''Ab''))
       = (None, Some (replicate 48 0xAB))"
proof -
  have "list_all2 (\<lambda>c d. d = c \<or> d = upper_hex c) ''ab'' ''Ab''"
    by (simp add: upper_hex_def)
  then have pu: "partly_uppercased (''0x'' @ concat (replicate 48 ''Ab''))
                   (fst (MarshalText (replicate 48 0xAB)))"
    by (simp add: partly_uppercased_def MarshalText_def hex_EncodeToString_ab
        list_all2_concat_replicate)
  show ?thesis
    using pu UnmarshalText_case_insensitive [of "replicate 48 0xAB" "replicate 48 0"
        "''0x'' @ concat (replicate 48 ''Ab'')"]
    by simp
qed

subsection \<open>The commitment of a blob\<close>

lemma ComputeCommitment_loop_ok:
  "(\<forall>e\<in>set es. le_nat e < BLS_MODULUS)
   \<Longrightarrow> ComputeCommitment_loop frs es = Some (frs @ map le_nat es)"
  by (induction es arbitrary: frs) (simp_all add: FrFrom32_def)

lemma ComputeCommitment_loop_fails:
  "(\<exists>e\<in>set es. BLS_MODULUS \<le> le_nat e) \<Longrightarrow> ComputeCommitment_loop frs es = None"
proof (induction es arbitrary: frs)
  case Nil
  then show ?case by simp
next
  case (Cons e es)
  then show ?case by (cases "le_nat e < BLS_MODULUS") (auto simp: FrFrom32_def)
qed

text \<open>
  Claim C4. \<open>ComputeCommitment\<close> converts every scalar of the blob. If some scalar is
  not below the field modulus, the result is the zero commitment and \<open>false\<close>, nothing
  else; if all are below it, the result is the compressed commitment of all the field
  values, and \<open>true\<close>. Blobs with the same scalars have the same result.
\<close>

theorem ComputeCommitment_all_or_nothing:
  "((\<exists>e\<in>set (elems blob). BLS_MODULUS \<le> le_nat e) \<longrightarrow>
      ComputeCommitment BlobToKzg ToCompressedG1 blob = (replicate 48 0, False))
 \<and> ((\<forall>e\<in>set (elems blob). le_nat e < BLS_MODULUS) \<longrightarrow>
      ComputeCommitment BlobToKzg ToCompressedG1 blob
        = (go_copy (replicate 48 0) (ToCompressedG1 (BlobToKzg (map le_nat (elems blob)))), True))
 \<and> (elems blob = elems blob' \<longrightarrow>
      ComputeCommitment BlobToKzg ToCompressedG1 blob
        = ComputeCommitment BlobToKzg ToCompressedG1 blob')"
  by (simp add: ComputeCommitment_def KZGCommitment_zero_def ComputeCommitment_loop_ok
      ComputeCommitment_loop_fails Let_def)

lemma le_nat_append_zeros: "le_nat (replicate n 0 @ bs) = 256 ^ n * le_nat bs"
  by (induction n) simp_all

theorem ComputeCommitment_all_or_nothing_witness:
  "ComputeCommitment example_BlobToKzg example_ToCompressedG1
      \<lparr>elems = [1 # replicate 31 0, replicate 31 0 @ [0x80]], spare = []\<rparr>
     = (replicate 48 0, False)
   \<and> ComputeCommitment example_BlobToKzg example_ToCompressedG1
      \<lparr>elems = [1 # replicate 31 0, 2 # replicate 31 0], spare = []\<rparr>
     = (replicate 48 3, True)
   \<and> ComputeCommitment example_BlobToKzg example_ToCompressedG1
      \<lparr>elems = [1 # replicate 31 0, 2 # replicate 31 0], spare = [replicate 32 9]\<rparr>
     = (replicate 48 3, True)"
proof -
  have big: "BLS_MODULUS \<le> le_nat (replicate 31 0 @ [0x80])"
    by (simp add: le_nat_append_zeros BLS_MODULUS_def)
  have small: "le_nat (1 # replicate 31 0) < BLS_MODULUS" "le_nat (2 # replicate 31 0) < BLS_MODULUS"
    by (simp_all add: le_nat_zeros BLS_MODULUS_def)
  have r1: "ComputeCommitment example_BlobToKzg example_ToCompressedG1
      \<lparr>elems = [1 # replicate 31 0, replicate 31 0 @ [0x80]], spare = []\<rparr>
     = (replicate 48 0, False)"
    using big ComputeCommitment_all_or_nothing [of
        "\<lparr>elems = [1 # replicate 31 0, replicate 31 0 @ [0x80]], spare = []\<rparr>"
        example_BlobToKzg example_ToCompressedG1]
    by simp
  have r2: "ComputeCommitment example_BlobToKzg example_ToCompressedG1
      \<lparr>elems = [1 # replicate 31 0, 2 # replicate 31 0], spare = []\<rparr>
     = (replicate 48 3, True)"
    using small ComputeCommitment_all_or_nothing [of
        "\<lparr>elems = [1 # replicate 31 0, 2 # replicate 31 0], spare = []\<rparr>"
        example_BlobToKzg example_ToCompressedG1]
    by (simp add: le_nat_zeros example_BlobToKzg_def example_ToCompressedG1_def go_copy_def)
  have r3: "ComputeCommitment example_BlobToKzg example_ToCompressedG1
      \<lparr>elems = [1 # replicate 31 0, 2 # replicate 31 0], spare = [replicate 32 9]\<rparr>
     = ComputeCommitment example_BlobToKzg example_ToCompressedG1
      \<lparr>elems = [1 # replicate 31 0, 2 # replicate 31 0], spare = []\<rparr>"
    using ComputeCommitment_all_or_nothing [of
        "\<lparr>elems = [1 # replicate 31 0, 2 # replicate 31 0], spare = [replicate 32 9]\<rparr>"
        example_BlobToKzg example_ToCompressedG1
        "\<lparr>elems = [1 # replicate 31 0, 2 # replicate 31 0], spare = []\<rparr>"]
    by simp
  show ?thesis using r1 r2 r3 by simp
qed

subsection \<open>What the encoders write\<close>

lemma ew_Write_ok: "ew_Write p w = (None, w') \<Longrightarrow> ew_out w' = ew_out w @ p"
  by (auto simp: ew_Write_def split: option.splits if_splits)

lemma ew_Write_unlimited:
  "ew_room w = None \<Longrightarrow> ew_Write p w = (None, w\<lparr>ew_out := ew_out w @ p\<rparr>)"
  by (simp add: ew_Write_def)

lemma WriteFieldElements_ok:
  "WriteFieldElements w es = (None, w') \<Longrightarrow> ew_out w' = ew_out w @ concat es"
proof (induction es arbitrary: w)
  case Nil
  then show ?case by simp
next
  case (Cons e es)
  then obtain w1 where w1: "ew_Write e w = (None, w1)" and r: "WriteFieldElements w1 es = (None, w')"
    by (auto split: prod.splits option.splits)
  from Cons.IH [OF r] ew_Write_ok [OF w1] show ?case by simp
qed

lemma WriteFieldElements_unlimited:
  "ew_room w = None \<Longrightarrow> WriteFieldElements w es = (None, w\<lparr>ew_out := ew_out w @ concat es\<rparr>)"
  by (induction es arbitrary: w) (simp_all add: ew_Write_unlimited)

lemma ew_List_loop_ok:
  assumes ser: "\<And>j w w'. i \<le> j \<Longrightarrow> j < n \<Longrightarrow> ser j w = (None, w') \<Longrightarrow> ew_out w' = ew_out w @ bs j"
  shows "ew_List_loop ser i n w = (None, w') \<Longrightarrow> ew_out w' = ew_out w @ concat (map bs [i..<n])"
  using ser
proof (induction "n - i" arbitrary: i w)
  case 0
  then show ?case by (simp add: ew_List_loop.simps [of ser i n w])
next
  case (Suc d)
  then have lt: "i < n" by simp
  from Suc.prems(1) lt obtain w1 where w1: "ser i w = (None, w1)"
    and r: "ew_List_loop ser (Suc i) n w1 = (None, w')"
    by (subst (asm) ew_List_loop.simps) (auto split: prod.splits option.splits)
  have "ew_out w' = ew_out w1 @ concat (map bs [Suc i..<n])"
    using Suc.hyps(2) Suc.prems(2) by (intro Suc.hyps(1) [OF _ r]) auto
  moreover have "ew_out w1 = ew_out w @ bs i"
    using Suc.prems(2) [OF _ lt w1] by simp
  ultimately show ?case using lt by (simp add: upt_conv_Cons)
qed

lemma ew_List_loop_unlimited:
  assumes ser: "\<And>j w. i \<le> j \<Longrightarrow> j < n \<Longrightarrow> ew_room w = None
                 \<Longrightarrow> ser j w = (None, w\<lparr>ew_out := ew_out w @ bs j\<rparr>)"
  shows "ew_room w = None
         \<Longrightarrow> ew_List_loop ser i n w = (None, w\<lparr>ew_out := ew_out w @ concat (map bs [i..<n])\<rparr>)"
  using ser
proof (induction "n - i" arbitrary: i w)
  case 0
  then show ?case by (simp add: ew_List_loop.simps [of ser i n w])
next
  case (Suc d)
  then have lt: "i < n" by simp
  have w1: "ser i w = (None, w\<lparr>ew_out := ew_out w @ bs i\<rparr>)"
    using Suc.prems lt by simp
  have "ew_List_loop ser (Suc i) n (w\<lparr>ew_out := ew_out w @ bs i\<rparr>)
        = (None, (w\<lparr>ew_out := ew_out w @ bs i\<rparr>)
             \<lparr>ew_out := ew_out (w\<lparr>ew_out := ew_out w @ bs i\<rparr>) @ concat (map bs [Suc i..<n])\<rparr>)"
    using Suc.hyps(2) Suc.prems by (intro Suc.hyps(1)) auto
  then show ?case
    using lt w1 by (subst ew_List_loop.simps) (simp add: upt_conv_Cons)
qed

lemma concat_map_nth: "concat (map (\<lambda>j. f (xs ! j)) [0..<length xs]) = concat (map f xs)"
proof -
  have "map (\<lambda>j. f (xs ! j)) [0..<length xs] = map f (map ((!) xs) [0..<length xs])"
    by simp
  then show ?thesis by (simp only: map_nth)
qed

lemma BlobKzgs_Serialize_ok:
  "BlobKzgs_Serialize li w = (None, w') \<Longrightarrow> ew_out w' = ew_out w @ concat li"
proof -
  assume a: "BlobKzgs_Serialize li w = (None, w')"
  have "ew_out w' = ew_out w @ concat (map (\<lambda>j. li ! j) [0..<length li])"
    using a unfolding BlobKzgs_Serialize_def ew_List_def
    by (rule ew_List_loop_ok [rotated])
       (auto simp: BlobKzgs_get_def KZGCommitment_Serialize_def dest: ew_Write_ok)
  then show ?thesis using concat_map_nth [of "\<lambda>x. x" li] by simp
qed

lemma BlobKzgs_Serialize_unlimited:
  "ew_room w = None \<Longrightarrow> BlobKzgs_Serialize li w = (None, w\<lparr>ew_out := ew_out w @ concat li\<rparr>)"
proof -
  assume a: "ew_room w = None"
  have "ew_List_loop (BlobKzgs_get li) 0 (length li) w
        = (None, w\<lparr>ew_out := ew_out w @ concat (map (\<lambda>j. li ! j) [0..<length li])\<rparr>)"
    using a by (intro ew_List_loop_unlimited)
      (auto simp: BlobKzgs_get_def KZGCommitment_Serialize_def ew_Write_unlimited)
  then show ?thesis
    using concat_map_nth [of "\<lambda>x. x" li] by (simp add: BlobKzgs_Serialize_def ew_List_def)
qed

lemma Blobs_Serialize_ok:
  "Blobs_Serialize FEPB a w = (None, w') \<Longrightarrow> ew_out w' = ew_out w @ concat (map (concat \<circ> elems) a)"
proof -
  assume a: "Blobs_Serialize FEPB a w = (None, w')"
  have "ew_out w' = ew_out w @ concat (map (\<lambda>j. (concat \<circ> elems) (a ! j)) [0..<length a])"
    using a unfolding Blobs_Serialize_def ew_List_def
    by (rule ew_List_loop_ok [rotated])
       (auto simp: Blobs_get_def Blob_Serialize_def dest: WriteFieldElements_ok)
  then show ?thesis by (simp only: concat_map_nth)
qed

lemma Blobs_Serialize_unlimited:
  "ew_room w = None
   \<Longrightarrow> Blobs_Serialize FEPB a w = (None, w\<lparr>ew_out := ew_out w @ concat (map (concat \<circ> elems) a)\<rparr>)"
proof -
  assume a: "ew_room w = None"
  have "ew_List_loop (Blobs_get a) 0 (length a) w
        = (None, w\<lparr>ew_out := ew_out w @ concat (map (\<lambda>j. (concat \<circ> elems) (a ! j)) [0..<length a])\<rparr>)"
    using a by (intro ew_List_loop_unlimited)
      (auto simp: Blobs_get_def Blob_Serialize_def WriteFieldElements_unlimited)
  then show ?thesis
    by (simp only: concat_map_nth Blobs_Serialize_def ew_List_def)
qed

lemma length_concat_scalars: "wf_scalars es \<Longrightarrow> length (concat es) = length es * 32"
  by (induction es) (simp_all add: wf_scalars_def)

lemma length_concat_kzgs: "wf_kzgs li \<Longrightarrow> length (concat li) = length li * 48"
  by (induction li) (simp_all add: wf_kzgs_def)

lemma length_concat_blobs:
  "wf_blobs FEPB a \<Longrightarrow> length (concat (map (concat \<circ> elems) a)) = length a * FEPB * 32"
  by (induction a) (simp_all add: wf_blobs_def wf_blob_def length_concat_scalars algebra_simps)

subsection \<open>Serialized length and ByteLength\<close>

text \<open>
  Claim C7, amended. A \<open>Serialize\<close> that returns no error has written exactly
  \<open>ByteLength\<close> bytes, for every blob of exactly \<open>FieldElementsPerBlob\<close> scalars,
  every commitment, every list of commitments, and every list of blobs of exactly
  \<open>FieldElementsPerBlob\<close> scalars each; \<open>ByteLength\<close> is \<open>FieldElementsPerBlob * 32\<close>,
  48, \<open>48 * N\<close> and \<open>N * FieldElementsPerBlob * 32\<close>. On a writer that takes
  everything, \<open>Serialize\<close> returns no error.
\<close>

theorem Serialize_writes_ByteLength:
  "(wf_blob FEPB blob \<and> Blob_Serialize blob w = (None, w') \<longrightarrow>
      length (ew_out w') = length (ew_out w) + Blob_ByteLength FEPB blob)
 \<and> (length p = 48 \<and> KZGCommitment_Serialize p w = (None, w') \<longrightarrow>
      length (ew_out w') = length (ew_out w) + KZGCommitment_ByteLength p)
 \<and> (wf_kzgs li \<and> BlobKzgs_Serialize li w = (None, w') \<longrightarrow>
      length (ew_out w') = length (ew_out w) + BlobKzgs_ByteLength li)
 \<and> (wf_blobs FEPB a \<and> Blobs_Serialize FEPB a w = (None, w') \<longrightarrow>
      length (ew_out w') = length (ew_out w) + Blobs_ByteLength FEPB a)
 \<and> Blob_ByteLength FEPB blob = FEPB * 32 \<and> KZGCommitment_ByteLength p = 48
 \<and> BlobKzgs_ByteLength li = 48 * length li \<and> Blobs_ByteLength FEPB a = length a * FEPB * 32
 \<and> (ew_room w = None \<longrightarrow>
      fst (Blob_Serialize blob w) = None \<and> fst (KZGCommitment_Serialize p w) = None
      \<and> fst (BlobKzgs_Serialize li w) = None \<and> fst (Blobs_Serialize FEPB a w) = None)"
proof -
  have 1: "length (ew_out w') = length (ew_out w) + Blob_ByteLength FEPB blob"
    if "wf_blob FEPB blob" "Blob_Serialize blob w = (None, w')"
    using that WriteFieldElements_ok [of w "elems blob" w']
    by (simp add: Blob_Serialize_def Blob_ByteLength_def wf_blob_def length_concat_scalars)
  have 2: "length (ew_out w') = length (ew_out w) + KZGCommitment_ByteLength p"
    if "length p = 48" "KZGCommitment_Serialize p w = (None, w')"
    using that ew_Write_ok [of p w w']
    by (simp add: KZGCommitment_Serialize_def KZGCommitment_ByteLength_def)
  have 3: "length (ew_out w') = length (ew_out w) + BlobKzgs_ByteLength li"
    if "wf_kzgs li" "BlobKzgs_Serialize li w = (None, w')"
    using that BlobKzgs_Serialize_ok [of li w w']
    by (simp add: BlobKzgs_ByteLength_def length_concat_kzgs)
  have 4: "length (ew_out w') = length (ew_out w) + Blobs_ByteLength FEPB a"
    if "wf_blobs FEPB a" "Blobs_Serialize FEPB a w = (None, w')"
    using that Blobs_Serialize_ok [of FEPB a w w']
    by (simp add: Blobs_ByteLength_def length_concat_blobs)
  have 5: "fst (Blob_Serialize blob w) = None \<and> fst (KZGCommitment_Serialize p w) = None
      \<and> fst (BlobKzgs_Serialize li w) = None \<and> fst (Blobs_Serialize FEPB a w) = None"
    if "ew_room w = None"
    using that
    by (simp add: Blob_Serialize_def WriteFieldElements_unlimited KZGCommitment_Serialize_def
        ew_Write_unlimited BlobKzgs_Serialize_unlimited Blobs_Serialize_unlimited)
  show ?thesis
    using 1 2 3 4 5
    by (simp add: Blob_ByteLength_def KZGCommitment_ByteLength_def BlobKzgs_ByteLength_def
        Blobs_ByteLength_def)
qed

text \<open>
  Claim C7 as stated, for every value, fails at the empty blob \<open>Blob{}\<close>:
  \<open>Serialize\<close> writes the scalars the blob has, none, and \<open>ByteLength\<close> is
  \<open>FieldElementsPerBlob * 32\<close> whatever the blob holds.
\<close>

theorem Blob_Serialize_short_blob_counterexample:
  "fst (Blob_Serialize Blob_empty NewEncodingWriter) = None
   \<and> length (ew_out (snd (Blob_Serialize Blob_empty NewEncodingWriter))) = 0
   \<and> Blob_ByteLength 4096 Blob_empty = 131072"
  by (simp add: Blob_Serialize_def Blob_empty_def NewEncodingWriter_def Blob_ByteLength_def)

theorem Serialize_writes_ByteLength_witness:
  "wf_blob 2 example_blob
   \<and> Blob_Serialize example_blob NewEncodingWriter
       = (None, \<lparr>ew_out = (1 # replicate 31 0) @ (2 # replicate 31 0), ew_room = None\<rparr>)
   \<and> length (ew_out \<lparr>ew_out = (1 # replicate 31 0) @ (2 # replicate 31 0), ew_room = None\<rparr>)
       = length (ew_out NewEncodingWriter) + Blob_ByteLength 2 example_blob
   \<and> wf_kzgs [replicate 48 1, replicate 48 2]
   \<and> BlobKzgs_Serialize [replicate 48 1, replicate 48 2] NewEncodingWriter
       = (None, \<lparr>ew_out = replicate 48 1 @ replicate 48 2, ew_room = None\<rparr>)
   \<and> length (ew_out \<lparr>ew_out = replicate 48 1 @ replicate 48 2, ew_room = None\<rparr>)
       = length (ew_out NewEncodingWriter) + BlobKzgs_ByteLength [replicate 48 1, replicate 48 2]
   \<and> wf_blobs 2 [example_blob, example_blob]
   \<and> fst (Blobs_Serialize 2 [example_blob, example_blob] NewEncodingWriter) = None
   \<and> length (ew_out (snd (Blobs_Serialize 2 [example_blob, example_blob] NewEncodingWriter)))
       = length (ew_out NewEncodingWriter) + Blobs_ByteLength 2 [example_blob, example_blob]"
proof -
  have a: "wf_blob 2 example_blob"
    by (simp add: wf_blob_def wf_scalars_def example_blob_def)
  have b: "Blob_Serialize example_blob NewEncodingWriter
       = (None, \<lparr>ew_out = (1 # replicate 31 0) @ (2 # replicate 31 0), ew_room = None\<rparr>)"
    by (simp add: Blob_Serialize_def example_blob_def NewEncodingWriter_def ew_Write_def)
  have c: "wf_kzgs [replicate 48 1, replicate 48 2]"
    by (simp add: wf_kzgs_def)
  have d: "BlobKzgs_Serialize [replicate 48 1, replicate 48 2] NewEncodingWriter
       = (None, \<lparr>ew_out = replicate 48 1 @ replicate 48 2, ew_room = None\<rparr>)"
    by (simp add: BlobKzgs_Serialize_unlimited NewEncodingWriter_def)
  have e: "wf_blobs 2 [example_blob, example_blob]"
    using a by (simp add: wf_blobs_def)
  obtain w' where f: "Blobs_Serialize 2 [example_blob, example_blob] NewEncodingWriter = (None, w')"
    by (simp add: Blobs_Serialize_unlimited NewEncodingWriter_def)
  show ?thesis
    using a b c d e f
      Serialize_writes_ByteLength [of 2 example_blob NewEncodingWriter
        "\<lparr>ew_out = (1 # replicate 31 0) @ (2 # replicate 31 0), ew_room = None\<rparr>"
        "replicate 48 1" "[replicate 48 1, replicate 48 2]" "[example_blob, example_blob]"]
      Serialize_writes_ByteLength [of 2 example_blob NewEncodingWriter
        "\<lparr>ew_out = replicate 48 1 @ replicate 48 2, ew_room = None\<rparr>"
        "replicate 48 1" "[replicate 48 1, replicate 48 2]" "[example_blob, example_blob]"]
      Serialize_writes_ByteLength [of 2 example_blob NewEncodingWriter w'
        "replicate 48 1" "[replicate 48 1, replicate 48 2]" "[example_blob, example_blob]"]
    by simp
qed

subsection \<open>What the decoders read\<close>

lemma dr_Read_ok:
  "0 < length p \<Longrightarrow> dr_i dr + length p \<le> dr_max dr \<Longrightarrow> dr_input dr = bs @ rest
   \<Longrightarrow> length bs = length p
   \<Longrightarrow> dr_Read p dr = (bs, None, dr\<lparr>dr_input := rest, dr_i := dr_i dr + length p\<rparr>)"
  by (simp add: dr_Read_def)

lemma KZGCommitment_Deserialize_ok:
  "length q = 48 \<Longrightarrow> length p = 48 \<Longrightarrow> dr_input dr = p @ rest \<Longrightarrow> dr_i dr + 48 \<le> dr_max dr
   \<Longrightarrow> KZGCommitment_Deserialize (Some q) dr
       = (None, Some p, dr\<lparr>dr_input := rest, dr_i := dr_i dr + 48\<rparr>)"
  using dr_Read_ok [of q dr p rest] by (simp add: KZGCommitment_Deserialize_def)

lemma ReadFieldElements_loop_ok:
  "wf_scalars es \<Longrightarrow> wf_scalars dst \<Longrightarrow> length dst = n \<Longrightarrow> i + length es = n
   \<Longrightarrow> dr_input dr = concat es @ rest \<Longrightarrow> dr_i dr + 32 * length es \<le> dr_max dr
   \<Longrightarrow> ReadFieldElements_loop dr dst i n
       = (None, take i dst @ es, dr\<lparr>dr_input := rest, dr_i := dr_i dr + 32 * length es\<rparr>)"
proof (induction es arbitrary: dr dst i)
  case Nil
  then show ?case by (subst ReadFieldElements_loop.simps) simp
next
  case (Cons e es)
  from Cons.prems have i: "i < n" "i < length dst" by simp_all
  from Cons.prems have e: "length e = 32" by (simp add: wf_scalars_def)
  from Cons.prems(2) i have di: "length (dst ! i) = 32"
    by (simp add: wf_scalars_def list_all_length)
  let ?dr' = "dr\<lparr>dr_input := concat es @ rest, dr_i := dr_i dr + 32\<rparr>"
  have rd: "dr_Read (dst ! i) dr = (e, None, ?dr')"
    using dr_Read_ok [of "dst ! i" dr e "concat es @ rest"] Cons.prems(5,6) di e by simp
  have wf': "wf_scalars (dst[i := e])"
    using Cons.prems(2) e i
    by (auto simp: wf_scalars_def list_all_length nth_list_update)
  have "ReadFieldElements_loop ?dr' (dst[i := e]) (Suc i) n
        = (None, take (Suc i) (dst[i := e]) @ es,
           ?dr'\<lparr>dr_input := rest, dr_i := dr_i ?dr' + 32 * length es\<rparr>)"
    using Cons.prems wf' by (intro Cons.IH) (simp_all add: wf_scalars_def)
  moreover have "take (Suc i) (dst[i := e]) = take i dst @ [e]"
    using i by (simp add: take_Suc_conv_app_nth)
  ultimately show ?case
    using i rd by (subst ReadFieldElements_loop.simps) (simp add: add.assoc)
qed

lemma Blob_Deserialize_ok:
  assumes "wf_blob FEPB x" and "dr_input dr = concat (elems x) @ rest"
    and "dr_i dr + FEPB * 32 \<le> dr_max dr"
  shows "Blob_Deserialize FEPB Blob_empty dr
         = (None, \<lparr>elems = elems x, spare = []\<rparr>,
            dr\<lparr>dr_input := rest, dr_i := dr_i dr + FEPB * 32\<rparr>)"
proof -
  from assms(1) have len: "length (elems x) = FEPB" and wf: "wf_scalars (elems x)"
    by (simp_all add: wf_blob_def)
  have "ReadFieldElements_loop dr (replicate FEPB (replicate 32 0)) 0 FEPB
        = (None, take 0 (replicate FEPB (replicate 32 0)) @ elems x,
           dr\<lparr>dr_input := rest, dr_i := dr_i dr + 32 * length (elems x)\<rparr>)"
    using assms(2,3) len wf
    by (intro ReadFieldElements_loop_ok) (simp_all add: wf_scalars_def list_all_length)
  then show ?thesis
    using len
    by (cases "FEPB = 0")
       (simp_all add: Blob_Deserialize_def ReadFieldElements_def Blob_empty_def mult.commute)
qed

lemma BlobKzgs_add_ok:
  "length p = 48 \<Longrightarrow> dr_input dr = p @ rest \<Longrightarrow> dr_i dr + 48 \<le> dr_max dr
   \<Longrightarrow> BlobKzgs_add li dr = (None, li @ [p], dr\<lparr>dr_input := rest, dr_i := dr_i dr + 48\<rparr>)"
  using KZGCommitment_Deserialize_ok [of KZGCommitment_zero p dr rest]
  by (simp add: BlobKzgs_add_def KZGCommitment_zero_def Let_def)

lemma Blobs_add_ok:
  "wf_blob FEPB x \<Longrightarrow> dr_input dr = concat (elems x) @ rest \<Longrightarrow> dr_i dr + FEPB * 32 \<le> dr_max dr
   \<Longrightarrow> Blobs_add FEPB a dr
       = (None, a @ [\<lparr>elems = elems x, spare = []\<rparr>],
          dr\<lparr>dr_input := rest, dr_i := dr_i dr + FEPB * 32\<rparr>)"
  using Blob_Deserialize_ok [of FEPB x dr rest]
  by (simp add: Blobs_add_def Let_def)

lemma dr_List_loop_kzgs:
  "wf_kzgs li \<Longrightarrow> dr_input dr = concat li @ rest \<Longrightarrow> dr_i dr + 48 * length li \<le> dr_max dr
   \<Longrightarrow> dr_List_loop BlobKzgs_add (length li) acc dr
       = (None, acc @ li, dr\<lparr>dr_input := rest, dr_i := dr_i dr + 48 * length li\<rparr>)"
proof (induction li arbitrary: acc dr)
  case Nil
  then show ?case by simp
next
  case (Cons p li)
  let ?dr' = "dr\<lparr>dr_input := concat li @ rest, dr_i := dr_i dr + 48\<rparr>"
  have add: "BlobKzgs_add acc dr = (None, acc @ [p], ?dr')"
    using Cons.prems by (intro BlobKzgs_add_ok) (simp_all add: wf_kzgs_def)
  have "dr_List_loop BlobKzgs_add (length li) (acc @ [p]) ?dr'
        = (None, (acc @ [p]) @ li, ?dr'\<lparr>dr_input := rest, dr_i := dr_i ?dr' + 48 * length li\<rparr>)"
    using Cons.prems by (intro Cons.IH) (simp_all add: wf_kzgs_def)
  with add show ?case by (simp add: add.assoc)
qed

lemma dr_List_loop_blobs:
  "wf_blobs FEPB a \<Longrightarrow> dr_input dr = concat (map (concat \<circ> elems) a) @ rest
   \<Longrightarrow> dr_i dr + FEPB * 32 * length a \<le> dr_max dr
   \<Longrightarrow> dr_List_loop (Blobs_add FEPB) (length a) acc dr
       = (None, acc @ map (\<lambda>b. \<lparr>elems = elems b, spare = []\<rparr>) a,
          dr\<lparr>dr_input := rest, dr_i := dr_i dr + FEPB * 32 * length a\<rparr>)"
proof (induction a arbitrary: acc dr)
  case Nil
  then show ?case by simp
next
  case (Cons x a)
  let ?dr' = "dr\<lparr>dr_input := concat (map (concat \<circ> elems) a) @ rest, dr_i := dr_i dr + FEPB * 32\<rparr>"
  have add: "Blobs_add FEPB acc dr = (None, acc @ [\<lparr>elems = elems x, spare = []\<rparr>], ?dr')"
    using Cons.prems by (intro Blobs_add_ok) (simp_all add: wf_blobs_def comp_def)
  have "dr_List_loop (Blobs_add FEPB) (length a) (acc @ [\<lparr>elems = elems x, spare = []\<rparr>]) ?dr'
        = (None, (acc @ [\<lparr>elems = elems x, spare = []\<rparr>]) @ map (\<lambda>b. \<lparr>elems = elems b, spare = []\<rparr>) a,
           ?dr'\<lparr>dr_input := rest, dr_i := dr_i ?dr' + FEPB * 32 * length a\<rparr>)"
    using Cons.prems by (intro Cons.IH) (simp_all add: wf_blobs_def comp_def)
  with add show ?case by (simp add: add.assoc)
qed

lemma BlobKzgs_Deserialize_ok:
  assumes "wf_kzgs li" and "length li \<le> 2 ^ 24" and "dr_input dr = concat li @ rest"
    and "dr_max dr = dr_i dr + 48 * length li"
  shows "BlobKzgs_Deserialize acc dr
         = (None, acc @ li, dr\<lparr>dr_input := rest, dr_i := dr_max dr\<rparr>)"
proof -
  have scope: "dr_Scope dr = 48 * length li" using assms(4) by (simp add: dr_Scope_def)
  have "dr_List_loop BlobKzgs_add (length li) acc dr
        = (None, acc @ li, dr\<lparr>dr_input := rest, dr_i := dr_i dr + 48 * length li\<rparr>)"
    using assms by (intro dr_List_loop_kzgs) simp_all
  then show ?thesis
    using assms(2,4)
    by (simp add: BlobKzgs_Deserialize_def dr_List_def scope MAX_TX_WRAP_KZG_COMMITMENTS_def)
qed

lemma Blobs_Deserialize_ok:
  assumes "0 < FEPB" and "wf_blobs FEPB a" and "length a \<le> 2 ^ 24"
    and "dr_input dr = concat (map (concat \<circ> elems) a) @ rest"
    and "dr_max dr = dr_i dr + FEPB * 32 * length a"
  shows "Blobs_Deserialize FEPB acc dr
         = (None, acc @ map (\<lambda>b. \<lparr>elems = elems b, spare = []\<rparr>) a,
            dr\<lparr>dr_input := rest, dr_i := dr_max dr\<rparr>)"
proof -
  have scope: "dr_Scope dr = FEPB * 32 * length a" using assms(5) by (simp add: dr_Scope_def)
  have "dr_List_loop (Blobs_add FEPB) (length a) acc dr
        = (None, acc @ map (\<lambda>b. \<lparr>elems = elems b, spare = []\<rparr>) a,
           dr\<lparr>dr_input := rest, dr_i := dr_i dr + FEPB * 32 * length a\<rparr>)"
    using assms by (intro dr_List_loop_blobs) simp_all
  then show ?thesis
    using assms(1,3,5)
    by (simp add: Blobs_Deserialize_def dr_List_def scope LIMIT_BLOBS_PER_TX_def)
qed

subsection \<open>Decoding into a list that holds elements\<close>

lemma dr_Read_None:
  "dr_Read p dr = (p', None, dr') \<Longrightarrow> 0 < length p
   \<Longrightarrow> p' = take (length p) (dr_input dr) \<and> length p \<le> length (dr_input dr)
       \<and> dr_input dr' = drop (length p) (dr_input dr)"
  by (auto simp: dr_Read_def split: if_splits)

lemma dr_List_loop_decoded:
  assumes step: "\<And>li dr li' dr'. step li dr = (None, li', dr')
                  \<Longrightarrow> \<exists>x. li' = li @ [x] \<and> P x \<and> enc x = take sz (dr_input dr)
                          \<and> dr_input dr' = drop sz (dr_input dr)"
  shows "dr_List_loop step k li dr = (None, li', dr')
         \<Longrightarrow> \<exists>xs. li' = li @ xs \<and> length xs = k \<and> list_all P xs
                 \<and> concat (map enc xs) = take (k * sz) (dr_input dr)
                 \<and> dr_input dr' = drop (k * sz) (dr_input dr)"
proof (induction k arbitrary: li dr)
  case 0
  then show ?case by simp
next
  case (Suc k)
  then obtain li1 dr1 where s: "step li dr = (None, li1, dr1)"
    and r: "dr_List_loop step k li1 dr1 = (None, li', dr')"
    by (auto split: prod.splits option.splits)
  from step [OF s] obtain x where x: "li1 = li @ [x]" "P x" "enc x = take sz (dr_input dr)"
    "dr_input dr1 = drop sz (dr_input dr)"
    by blast
  from Suc.IH [OF r] obtain xs where xs: "li' = li1 @ xs" "length xs = k" "list_all P xs"
    "concat (map enc xs) = take (k * sz) (dr_input dr1)"
    "dr_input dr' = drop (k * sz) (dr_input dr1)"
    by blast
  have c: "concat (map enc (x # xs)) = take (Suc k * sz) (dr_input dr)"
    using x(3,4) xs(4) by (simp add: take_add)
  have d: "dr_input dr' = drop (Suc k * sz) (dr_input dr)"
    using x(4) xs(5) by (simp add: add.commute)
  show ?case
    using x(1,2) xs(1,2,3) c d
    by (intro exI [of _ "x # xs"]) simp
qed

lemma BlobKzgs_add_decoded:
  assumes "BlobKzgs_add li dr = (None, li', dr')"
  shows "\<exists>x. li' = li @ [x] \<and> length x = 48 \<and> (\<lambda>x. x) x = take 48 (dr_input dr)
             \<and> dr_input dr' = drop 48 (dr_input dr)"
proof -
  from assms obtain p where r: "dr_Read KZGCommitment_zero dr = (p, None, dr')"
    and li': "li' = li @ [p]"
    by (auto simp: BlobKzgs_add_def KZGCommitment_Deserialize_def Let_def
        split: prod.splits option.splits)
  from dr_Read_None [OF r] have "p = take 48 (dr_input dr)" "48 \<le> length (dr_input dr)"
    "dr_input dr' = drop 48 (dr_input dr)"
    by (simp_all add: KZGCommitment_zero_def)
  with li' show ?thesis by simp
qed

lemma ReadFieldElements_loop_keeps:
  "ReadFieldElements_loop dr dst j n = (None, dst', dr') \<Longrightarrow> i < j \<Longrightarrow> dst' ! i = dst ! i"
proof (induction "n - j" arbitrary: j dst dr)
  case 0
  then show ?case by (subst (asm) ReadFieldElements_loop.simps) simp
next
  case (Suc e)
  then have "j < n" by simp
  with Suc.prems(1) obtain q dr2 where
    r2: "ReadFieldElements_loop dr2 (dst[j := q]) (Suc j) n = (None, dst', dr')"
    by (subst (asm) ReadFieldElements_loop.simps)
       (auto split: prod.splits option.splits if_splits)
  have "dst' ! i = (dst[j := q]) ! i"
    using Suc.hyps(2) Suc.prems(2) by (intro Suc.hyps(1) [OF _ r2]) simp_all
  with Suc.prems(2) show ?case by simp
qed

lemma ReadFieldElements_loop_decoded:
  "ReadFieldElements_loop dr dst i n = (None, dst', dr') \<Longrightarrow> wf_scalars dst \<Longrightarrow> length dst = n
   \<Longrightarrow> i \<le> n
   \<Longrightarrow> length dst' = n \<and> wf_scalars dst'
       \<and> concat (drop i dst') = take ((n - i) * 32) (dr_input dr)
       \<and> dr_input dr' = drop ((n - i) * 32) (dr_input dr)"
proof (induction "n - i" arbitrary: i dst dr)
  case 0
  then have "i = n" by simp
  with 0 show ?case by (subst (asm) ReadFieldElements_loop.simps) simp
next
  case (Suc d)
  then have lt: "i < n" "i < length dst" by simp_all
  from Suc.prems(1) lt obtain p dr1 where rd: "dr_Read (dst ! i) dr = (p, None, dr1)"
    and r: "ReadFieldElements_loop dr1 (dst[i := p]) (Suc i) n = (None, dst', dr')"
    by (subst (asm) ReadFieldElements_loop.simps) (auto split: prod.splits option.splits)
  from Suc.prems(2) lt have di: "length (dst ! i) = 32"
    by (simp add: wf_scalars_def list_all_length)
  from dr_Read_None [OF rd] di have p: "p = take 32 (dr_input dr)" "32 \<le> length (dr_input dr)"
    "dr_input dr1 = drop 32 (dr_input dr)"
    by simp_all
  then have lp: "length p = 32" by simp
  have wf1: "wf_scalars (dst[i := p])"
    using Suc.prems(2) lp lt
    by (auto simp: wf_scalars_def list_all_length nth_list_update)
  have ih: "length dst' = n \<and> wf_scalars dst'
       \<and> concat (drop (Suc i) dst') = take ((n - Suc i) * 32) (dr_input dr1)
       \<and> dr_input dr' = drop ((n - Suc i) * 32) (dr_input dr1)"
    using Suc.hyps(2) Suc.prems(3) lt wf1 by (intro Suc.hyps(1) [OF _ r]) simp_all
  have keep: "dst' ! i = p"
    using ReadFieldElements_loop_keeps [OF r] lt by simp
  have "drop i dst' = dst' ! i # drop (Suc i) dst'"
    using ih lt by (simp add: Cons_nth_drop_Suc)
  then have "concat (drop i dst') = take 32 (dr_input dr) @ take ((n - Suc i) * 32) (drop 32 (dr_input dr))"
    using keep p ih by simp
  also have "\<dots> = take (32 + (n - Suc i) * 32) (dr_input dr)"
    by (simp add: take_add)
  also have "32 + (n - Suc i) * 32 = (n - i) * 32"
    using lt by (simp add: Suc_diff_Suc [symmetric] del: Suc_diff_Suc) 
  finally have c: "concat (drop i dst') = take ((n - i) * 32) (dr_input dr)" .
  have "dr_input dr' = drop ((n - Suc i) * 32 + 32) (dr_input dr)"
    using ih p(3) by simp
  moreover have "(n - Suc i) * 32 + 32 = (n - i) * 32"
    using lt by (simp add: Suc_diff_Suc [symmetric] del: Suc_diff_Suc)
  ultimately have d: "dr_input dr' = drop ((n - i) * 32) (dr_input dr)" by simp
  from ih c d show ?case by simp
qed

lemma Blob_Deserialize_decoded:
  assumes "Blob_Deserialize FEPB Blob_empty dr = (None, b, dr')"
  shows "wf_blob FEPB b \<and> concat (elems b) = take (FEPB * 32) (dr_input dr)
         \<and> dr_input dr' = drop (FEPB * 32) (dr_input dr)"
proof -
  from assms obtain dst where
    r: "ReadFieldElements_loop dr (replicate FEPB (replicate 32 0)) 0 FEPB = (None, dst, dr')"
    and b: "elems b = dst"
    by (cases "FEPB = 0")
       (auto simp: Blob_Deserialize_def ReadFieldElements_def Blob_empty_def Let_def
          split: prod.splits)
  have "length dst = FEPB \<and> wf_scalars dst
       \<and> concat (drop 0 dst) = take ((FEPB - 0) * 32) (dr_input dr)
       \<and> dr_input dr' = drop ((FEPB - 0) * 32) (dr_input dr)"
    by (rule ReadFieldElements_loop_decoded [OF r]) (simp_all add: wf_scalars_def list_all_length)
  with b show ?thesis by (simp add: wf_blob_def)
qed

lemma Blobs_add_decoded:
  assumes "Blobs_add FEPB a dr = (None, a', dr')"
  shows "\<exists>x. a' = a @ [x] \<and> wf_blob FEPB x
             \<and> (concat \<circ> elems) x = take (FEPB * 32) (dr_input dr)
             \<and> dr_input dr' = drop (FEPB * 32) (dr_input dr)"
proof -
  from assms obtain b where r: "Blob_Deserialize FEPB Blob_empty dr = (None, b, dr')"
    and a': "a' = a @ [b]"
    by (auto simp: Blobs_add_def Let_def split: prod.splits)
  from Blob_Deserialize_decoded [OF r] a' show ?thesis by simp
qed

text \<open>
  Claim C8. \<open>Deserialize\<close> of a list of commitments or of blobs into a destination
  that holds elements appends to it: after a decode without error the destination is its
  former elements, unchanged, followed by the decoded ones. These are as many as the
  scope holds, well-formed, and their bytes are the bytes of the scope, in order; so the
  destination is longer by their number and its former elements are its first elements.
\<close>

theorem Deserialize_appends_decoded:
  "(BlobKzgs_Deserialize li dr = (None, li', dr') \<longrightarrow>
      (\<exists>xs. li' = li @ xs \<and> length xs = dr_Scope dr div 48 \<and> wf_kzgs xs
            \<and> concat xs = take (dr_Scope dr) (dr_input dr))
      \<and> length li' = length li + dr_Scope dr div 48 \<and> take (length li) li' = li)
 \<and> (Blobs_Deserialize FEPB a drb = (None, a', drb') \<longrightarrow>
      (\<exists>xs. a' = a @ xs \<and> length xs = dr_Scope drb div (FEPB * 32) \<and> wf_blobs FEPB xs
            \<and> concat (map (concat \<circ> elems) xs) = take (dr_Scope drb) (dr_input drb))
      \<and> length a' = length a + dr_Scope drb div (FEPB * 32) \<and> take (length a) a' = a)"
proof (intro conjI impI)
  assume d: "BlobKzgs_Deserialize li dr = (None, li', dr')"
  then have al: "dr_Scope dr mod 48 = 0"
    and l: "dr_List_loop BlobKzgs_add (dr_Scope dr div 48) li dr = (None, li', dr')"
    by (simp_all add: BlobKzgs_Deserialize_def dr_List_def Let_def split: if_splits)
  from dr_List_loop_decoded [of BlobKzgs_add "\<lambda>x. length x = 48" "\<lambda>x. x" 48, OF BlobKzgs_add_decoded l]
  obtain xs where xs: "li' = li @ xs" "length xs = dr_Scope dr div 48"
    "list_all (\<lambda>x. length x = 48) xs"
    "concat (map (\<lambda>x. x) xs) = take (dr_Scope dr div 48 * 48) (dr_input dr)"
    by blast
  from al have "dr_Scope dr div 48 * 48 = dr_Scope dr"
    by (intro dvd_div_mult_self) (simp add: dvd_eq_mod_eq_0)
  with xs show "\<exists>xs. li' = li @ xs \<and> length xs = dr_Scope dr div 48 \<and> wf_kzgs xs
            \<and> concat xs = take (dr_Scope dr) (dr_input dr)"
    by (intro exI [of _ xs]) (simp add: wf_kzgs_def)
  from xs show "length li' = length li + dr_Scope dr div 48" "take (length li) li' = li"
    by simp_all
next
  assume d: "Blobs_Deserialize FEPB a drb = (None, a', drb')"
  then have al: "dr_Scope drb mod (FEPB * 32) = 0"
    and l: "dr_List_loop (Blobs_add FEPB) (dr_Scope drb div (FEPB * 32)) a drb = (None, a', drb')"
    by (simp_all add: Blobs_Deserialize_def dr_List_def Let_def split: if_splits)
  from dr_List_loop_decoded [of "Blobs_add FEPB" "wf_blob FEPB" "concat \<circ> elems" "FEPB * 32",
      OF Blobs_add_decoded l]
  obtain xs where xs: "a' = a @ xs" "length xs = dr_Scope drb div (FEPB * 32)"
    "list_all (wf_blob FEPB) xs"
    "concat (map (concat \<circ> elems) xs)
       = take (dr_Scope drb div (FEPB * 32) * (FEPB * 32)) (dr_input drb)"
    by blast
  from al have "dr_Scope drb div (FEPB * 32) * (FEPB * 32) = dr_Scope drb"
    by (intro dvd_div_mult_self) (simp add: dvd_eq_mod_eq_0)
  with xs show "\<exists>xs. a' = a @ xs \<and> length xs = dr_Scope drb div (FEPB * 32) \<and> wf_blobs FEPB xs
            \<and> concat (map (concat \<circ> elems) xs) = take (dr_Scope drb) (dr_input drb)"
    by (intro exI [of _ xs]) (simp add: wf_blobs_def)
  from xs show "length a' = length a + dr_Scope drb div (FEPB * 32)" "take (length a) a' = a"
    by simp_all
qed

theorem Deserialize_appends_decoded_witness:
  "fst (BlobKzgs_Deserialize [replicate 48 7]
          (NewDecodingReader (replicate 48 1 @ replicate 48 2) 96)) = None
   \<and> fst (snd (BlobKzgs_Deserialize [replicate 48 7]
          (NewDecodingReader (replicate 48 1 @ replicate 48 2) 96)))
       = [replicate 48 7, replicate 48 1, replicate 48 2]
   \<and> (\<exists>xs. [replicate 48 7, replicate 48 1, replicate 48 2] = [replicate 48 7] @ xs
          \<and> length xs = dr_Scope (NewDecodingReader (replicate 48 1 @ replicate 48 2) 96) div 48
          \<and> wf_kzgs xs
          \<and> concat xs = take (dr_Scope (NewDecodingReader (replicate 48 1 @ replicate 48 2) 96))
                           (dr_input (NewDecodingReader (replicate 48 1 @ replicate 48 2) 96)))
   \<and> fst (Blobs_Deserialize 2 [Blob_empty]
          (NewDecodingReader (concat (elems example_blob) @ concat (elems example_blob)) 128)) = None
   \<and> fst (snd (Blobs_Deserialize 2 [Blob_empty]
          (NewDecodingReader (concat (elems example_blob) @ concat (elems example_blob)) 128)))
       = [Blob_empty, example_blob, example_blob]
   \<and> (\<exists>xs. [Blob_empty, example_blob, example_blob] = [Blob_empty] @ xs
          \<and> length xs = dr_Scope (NewDecodingReader
                (concat (elems example_blob) @ concat (elems example_blob)) 128) div (2 * 32)
          \<and> wf_blobs 2 xs
          \<and> concat (map (concat \<circ> elems) xs)
              = take (dr_Scope (NewDecodingReader
                    (concat (elems example_blob) @ concat (elems example_blob)) 128))
                  (dr_input (NewDecodingReader
                    (concat (elems example_blob) @ concat (elems example_blob)) 128)))"
proof -
  obtain dr' where k: "BlobKzgs_Deserialize [replicate 48 7]
        (NewDecodingReader (replicate 48 1 @ replicate 48 2) 96)
     = (None, [replicate 48 7, replicate 48 1, replicate 48 2], dr')"
    using BlobKzgs_Deserialize_ok [of "[replicate 48 1, replicate 48 2]"
        "NewDecodingReader (replicate 48 1 @ replicate 48 2) 96" "[]" "[replicate 48 7]"]
    by (simp add: wf_kzgs_def NewDecodingReader_def)
  have wf: "wf_blob 2 example_blob"
    by (simp add: wf_blob_def wf_scalars_def example_blob_def)
  have eb: "\<lparr>elems = elems example_blob, spare = []\<rparr> = example_blob"
    by (simp add: example_blob_def)
  obtain drb' where b: "Blobs_Deserialize 2 [Blob_empty]
        (NewDecodingReader (concat (elems example_blob) @ concat (elems example_blob)) 128)
     = (None, [Blob_empty, example_blob, example_blob], drb')"
    using wf Blobs_Deserialize_ok [of 2 "[example_blob, example_blob]"
        "NewDecodingReader (concat (elems example_blob) @ concat (elems example_blob)) 128" "[]"
        "[Blob_empty]"]
    by (simp add: wf_blobs_def NewDecodingReader_def eb)
  show ?thesis
    using k b
      Deserialize_appends_decoded [of "[replicate 48 7]"
        "NewDecodingReader (replicate 48 1 @ replicate 48 2) 96"
        "[replicate 48 7, replicate 48 1, replicate 48 2]" dr' 2 "[Blob_empty]"
        "NewDecodingReader (concat (elems example_blob) @ concat (elems example_blob)) 128"
        "[Blob_empty, example_blob, example_blob]" drb']
    by simp
qed

subsection \<open>Offsets and the container\<close>

lemma length_le_bytes: "length (le_bytes k v) = k"
  by (induction k arbitrary: v) simp_all

lemma le_nat_le_bytes: "le_nat (le_bytes k v) = v mod 256 ^ k"
proof (induction k arbitrary: v)
  case 0
  then show ?case by simp
next
  case (Suc k)
  have "unat (of_nat v :: byte) = v mod 256"
    by (simp add: unat_of_nat)
  then have "le_nat (le_bytes (Suc k) v) = v mod 256 + 256 * ((v div 256) mod 256 ^ k)"
    by (simp add: Suc.IH)
  also have "\<dots> = v mod 256 ^ Suc k"
    by (simp add: mod_mult2_eq)
  finally show ?case .
qed

lemma WriteOffset_unlimited:
  "ew_room w = None \<Longrightarrow> WriteOffset v w = (None, w\<lparr>ew_out := ew_out w @ le_bytes 4 v\<rparr>)"
  by (simp add: WriteOffset_def ew_Write_unlimited)

lemma ReadOffset_ok:
  assumes "dr_input dr = le_bytes 4 v @ rest" and "v < 2 ^ 32" and "dr_i dr + 4 \<le> dr_max dr"
  shows "ReadOffset dr = (v, None, dr\<lparr>dr_input := rest, dr_i := dr_i dr + 4\<rparr>)"
proof -
  have "dr_Read (replicate 4 0) dr
        = (le_bytes 4 v, None, dr\<lparr>dr_input := rest, dr_i := dr_i dr + length (replicate 4 (0 :: byte))\<rparr>)"
    using assms by (intro dr_Read_ok) (simp_all add: length_le_bytes)
  moreover have "le_nat (le_bytes 4 v) = v"
    using assms(2) by (simp only: le_nat_le_bytes) simp
  ultimately show ?thesis by (simp add: ReadOffset_def)
qed

lemma dr_scoped_ok:
  assumes "deser x \<lparr>dr_input = dr_input dr, dr_i = 0, dr_max = count\<rparr>
           = (None, x', \<lparr>dr_input = rest, dr_i = count, dr_max = count\<rparr>)"
    and "count \<le> dr_Scope dr"
  shows "dr_scoped deser count x dr = (None, x', dr\<lparr>dr_input := rest, dr_i := dr_i dr + count\<rparr>)"
  using assms by (simp add: dr_scoped_def)

lemma Tx_Deserialize_ok:
  assumes "tx_dec bs = Some tx"
  shows "Tx_Deserialize tx_dec tx0 \<lparr>dr_input = bs @ rest, dr_i = 0, dr_max = length bs\<rparr>
         = (None, tx, \<lparr>dr_input = rest, dr_i = length bs, dr_max = length bs\<rparr>)"
proof (cases "bs = []")
  case True
  with assms show ?thesis by (simp add: Tx_Deserialize_def dr_Scope_def dr_Read_def)
next
  case False
  have "dr_Read (replicate (length bs) 0) \<lparr>dr_input = bs @ rest, dr_i = 0, dr_max = length bs\<rparr>
        = (bs, None, \<lparr>dr_input = bs @ rest, dr_i = 0, dr_max = length bs\<rparr>
             \<lparr>dr_input := rest,
              dr_i := dr_i \<lparr>dr_input = bs @ rest, dr_i = 0, dr_max = length bs\<rparr>
                      + length (replicate (length bs) (0 :: byte))\<rparr>)"
    using False by (intro dr_Read_ok) simp_all
  with assms show ?thesis by (simp add: Tx_Deserialize_def dr_Scope_def)
qed

lemma BlobTxWrapper_Serialize_unlimited:
  assumes "ew_room w = None"
  shows "BlobTxWrapper_Serialize tx_enc FEPB txw w
         = (None, w\<lparr>ew_out := ew_out w
              @ le_bytes 4 12
              @ le_bytes 4 (12 + length (tx_enc (wrapper_Tx txw)))
              @ le_bytes 4 (12 + length (tx_enc (wrapper_Tx txw)) + length (wrapper_BlobKzgs txw) * 48)
              @ tx_enc (wrapper_Tx txw)
              @ concat (wrapper_BlobKzgs txw)
              @ concat (map (concat \<circ> elems) (wrapper_Blobs txw))\<rparr>)"
  using assms
  by (simp add: BlobTxWrapper_Serialize_def WriteOffset_unlimited Tx_Serialize_def
      Tx_ByteLength_def BlobKzgs_ByteLength_def ew_Write_unlimited BlobKzgs_Serialize_unlimited
      Blobs_Serialize_unlimited Let_def)

lemma BlobTxWrapper_Deserialize_ok:
  fixes tx :: 'tx
  assumes fepb: "0 < FEPB"
    and dec: "tx_dec txb = Some tx"
    and kz: "wf_kzgs kzgs" "length kzgs \<le> 2 ^ 24"
    and bl: "wf_blobs FEPB blobs" "length blobs \<le> 2 ^ 24"
    and size: "12 + length txb + length kzgs * 48 + length blobs * FEPB * 32 < 2 ^ 32"
    and bytes: "bs = le_bytes 4 12 @ le_bytes 4 (12 + length txb)
                  @ le_bytes 4 (12 + length txb + length kzgs * 48)
                  @ txb @ concat kzgs @ concat (map (concat \<circ> elems) blobs)"
  shows "BlobTxWrapper_Deserialize tx_dec FEPB
           \<lparr>wrapper_Tx = tx0, wrapper_BlobKzgs = [], wrapper_Blobs = []\<rparr>
           (NewDecodingReader bs (length bs))
         = (None,
            \<lparr>wrapper_Tx = tx, wrapper_BlobKzgs = kzgs,
             wrapper_Blobs = map (\<lambda>b. \<lparr>elems = elems b, spare = []\<rparr>) blobs\<rparr>,
            \<lparr>dr_input = [], dr_i = length bs, dr_max = length bs\<rparr>)"
proof -
  let ?o2 = "12 + length txb"
  let ?o3 = "12 + length txb + length kzgs * 48"
  let ?kb = "concat kzgs"
  let ?bb = "concat (map (concat \<circ> elems) blobs)"
  have lk: "length ?kb = length kzgs * 48" using kz(1) by (rule length_concat_kzgs)
  have lb: "length ?bb = length blobs * FEPB * 32" using bl(1) by (rule length_concat_blobs)
  have len: "length bs = 12 + length txb + length kzgs * 48 + length blobs * FEPB * 32"
    by (simp add: bytes length_le_bytes lk lb)
  let ?dr = "NewDecodingReader bs (length bs)"
  let ?dr1 = "\<lparr>dr_input = le_bytes 4 ?o2 @ le_bytes 4 ?o3 @ txb @ ?kb @ ?bb, dr_i = 4, dr_max = length bs\<rparr>"
  let ?dr2 = "\<lparr>dr_input = le_bytes 4 ?o3 @ txb @ ?kb @ ?bb, dr_i = 8, dr_max = length bs\<rparr>"
  let ?dr3 = "\<lparr>dr_input = txb @ ?kb @ ?bb, dr_i = 12, dr_max = length bs\<rparr>"
  let ?dr4 = "\<lparr>dr_input = ?kb @ ?bb, dr_i = ?o2, dr_max = length bs\<rparr>"
  let ?dr5 = "\<lparr>dr_input = ?bb, dr_i = ?o3, dr_max = length bs\<rparr>"
  let ?dr6 = "\<lparr>dr_input = [], dr_i = length bs, dr_max = length bs\<rparr>"
  have scope: "\<not> dr_Scope ?dr < 12"
    by (simp add: dr_Scope_def NewDecodingReader_def len)
  have inp: "dr_input ?dr = le_bytes 4 12 @ (le_bytes 4 ?o2 @ le_bytes 4 ?o3 @ txb @ ?kb @ ?bb)"
    by (simp add: NewDecodingReader_def bytes)
  have "ReadOffset ?dr
        = (12, None, ?dr\<lparr>dr_input := le_bytes 4 ?o2 @ le_bytes 4 ?o3 @ txb @ ?kb @ ?bb,
                            dr_i := dr_i ?dr + 4\<rparr>)"
    by (rule ReadOffset_ok [OF inp]) (simp_all add: NewDecodingReader_def len)
  then have r1: "ReadOffset ?dr = (12, None, ?dr1)"
    by (simp add: NewDecodingReader_def)
  have r2: "ReadOffset ?dr1 = (?o2, None, ?dr2)"
    using ReadOffset_ok [of ?dr1 ?o2 "le_bytes 4 ?o3 @ txb @ ?kb @ ?bb"] size
    by (simp add: len)
  have r3: "ReadOffset ?dr2 = (?o3, None, ?dr3)"
    using ReadOffset_ok [of ?dr2 ?o3 "txb @ ?kb @ ?bb"] size
    by (simp add: len)
  have s1: "dr_scoped (Tx_Deserialize tx_dec) (length txb) tx0 ?dr3 = (None, tx, ?dr4)"
    using dr_scoped_ok [of "Tx_Deserialize tx_dec" tx0 ?dr3 "length txb" tx "?kb @ ?bb"]
      Tx_Deserialize_ok [of tx_dec txb tx tx0 "?kb @ ?bb"] dec
    by (simp add: dr_Scope_def len)
  have k: "BlobKzgs_Deserialize [] \<lparr>dr_input = ?kb @ ?bb, dr_i = 0, dr_max = length kzgs * 48\<rparr>
           = (None, kzgs, \<lparr>dr_input = ?bb, dr_i = length kzgs * 48, dr_max = length kzgs * 48\<rparr>)"
    using BlobKzgs_Deserialize_ok [OF kz, of
        "\<lparr>dr_input = ?kb @ ?bb, dr_i = 0, dr_max = length kzgs * 48\<rparr>" ?bb "[]"]
    by simp
  have s2: "dr_scoped BlobKzgs_Deserialize (length kzgs * 48) [] ?dr4 = (None, kzgs, ?dr5)"
    using dr_scoped_ok [of BlobKzgs_Deserialize "[]" ?dr4 "length kzgs * 48" kzgs ?bb] k
    by (simp add: dr_Scope_def len)
  have b: "Blobs_Deserialize FEPB []
             \<lparr>dr_input = ?bb, dr_i = 0, dr_max = length blobs * FEPB * 32\<rparr>
           = (None, map (\<lambda>b. \<lparr>elems = elems b, spare = []\<rparr>) blobs,
              \<lparr>dr_input = [], dr_i = length blobs * FEPB * 32, dr_max = length blobs * FEPB * 32\<rparr>)"
    using Blobs_Deserialize_ok [OF fepb bl, of
        "\<lparr>dr_input = ?bb, dr_i = 0, dr_max = length blobs * FEPB * 32\<rparr>" "[]" "[]"]
    by (simp add: mult.commute mult.left_commute)
  have sc5: "dr_Scope ?dr5 = length blobs * FEPB * 32"
    by (simp add: dr_Scope_def len)
  have s3: "dr_scoped (Blobs_Deserialize FEPB) (dr_Scope ?dr5) [] ?dr5
            = (None, map (\<lambda>b. \<lparr>elems = elems b, spare = []\<rparr>) blobs, ?dr6)"
    using dr_scoped_ok [of "Blobs_Deserialize FEPB" "[]" ?dr5 "length blobs * FEPB * 32"
        "map (\<lambda>b. \<lparr>elems = elems b, spare = []\<rparr>) blobs" "[]"] b
    by (simp add: len dr_Scope_def)
  show ?thesis
    unfolding BlobTxWrapper_Deserialize_def
    by (simp only: scope if_False r1 r2 r3 prod.case option.case) (simp add: s1 s2 s3)
qed

subsection \<open>Round trip\<close>

text \<open>
  Claim C3. Serializing a well-formed value into a fresh writer and deserializing the
  bytes into a fresh, empty destination gives the value back: for a blob of
  \<open>FieldElementsPerBlob\<close> scalars, for a commitment, for a list of at most \<open>2^24\<close>
  commitments, for a list of at most \<open>2^24\<close> well-formed blobs, and for the
  \<open>BlobKzgs\<close> and \<open>Blobs\<close> of a wrap data, which travel as the fields of a
  \<open>BlobTxWrapper\<close> (whose offsets take 4 bytes, so the whole is below \<open>2^32\<close> bytes).
  Blobs are compared by their scalars.
\<close>

theorem Serialize_Deserialize_roundtrip:
  "(wf_blob FEPB blob \<longrightarrow>
      (\<exists>w blob' dr'. Blob_Serialize blob NewEncodingWriter = (None, w)
         \<and> Blob_Deserialize FEPB Blob_empty (NewDecodingReader (ew_out w) (length (ew_out w)))
             = (None, blob', dr')
         \<and> elems blob' = elems blob))
 \<and> (length p = 48 \<longrightarrow>
      (\<exists>w dr'. KZGCommitment_Serialize p NewEncodingWriter = (None, w)
         \<and> KZGCommitment_Deserialize (Some KZGCommitment_zero)
               (NewDecodingReader (ew_out w) (length (ew_out w)))
             = (None, Some p, dr')))
 \<and> (wf_kzgs li \<and> length li \<le> MAX_TX_WRAP_KZG_COMMITMENTS \<longrightarrow>
      (\<exists>w dr'. BlobKzgs_Serialize li NewEncodingWriter = (None, w)
         \<and> BlobKzgs_Deserialize [] (NewDecodingReader (ew_out w) (length (ew_out w)))
             = (None, li, dr')))
 \<and> (0 < FEPB \<and> wf_blobs FEPB a \<and> length a \<le> LIMIT_BLOBS_PER_TX \<longrightarrow>
      (\<exists>w a' dr'. Blobs_Serialize FEPB a NewEncodingWriter = (None, w)
         \<and> Blobs_Deserialize FEPB [] (NewDecodingReader (ew_out w) (length (ew_out w)))
             = (None, a', dr')
         \<and> map elems a' = map elems a))
 \<and> (0 < FEPB \<and> wf_kzgs (wrapper_BlobKzgs txw)
      \<and> length (wrapper_BlobKzgs txw) \<le> MAX_TX_WRAP_KZG_COMMITMENTS
      \<and> wf_blobs FEPB (wrapper_Blobs txw) \<and> length (wrapper_Blobs txw) \<le> LIMIT_BLOBS_PER_TX
      \<and> tx_dec (tx_enc (wrapper_Tx txw)) = Some (wrapper_Tx txw)
      \<and> 12 + length (tx_enc (wrapper_Tx txw)) + length (wrapper_BlobKzgs txw) * 48
           + length (wrapper_Blobs txw) * FEPB * 32 < 2 ^ 32 \<longrightarrow>
      (\<exists>w txw' dr'. BlobTxWrapper_Serialize tx_enc FEPB txw NewEncodingWriter = (None, w)
         \<and> BlobTxWrapper_Deserialize tx_dec FEPB
               \<lparr>wrapper_Tx = tx0, wrapper_BlobKzgs = [], wrapper_Blobs = []\<rparr>
               (NewDecodingReader (ew_out w) (length (ew_out w)))
             = (None, txw', dr')
         \<and> wrapper_Tx txw' = wrapper_Tx txw
         \<and> wrapper_BlobKzgs txw' = wrapper_BlobKzgs txw
         \<and> map elems (wrapper_Blobs txw') = map elems (wrapper_Blobs txw)))"
proof (intro conjI impI)
  assume wf: "wf_blob FEPB blob"
  have s: "Blob_Serialize blob NewEncodingWriter
           = (None, \<lparr>ew_out = concat (elems blob), ew_room = None\<rparr>)"
    by (simp add: Blob_Serialize_def WriteFieldElements_unlimited NewEncodingWriter_def)
  have len: "length (concat (elems blob)) = FEPB * 32"
    using wf by (simp add: wf_blob_def length_concat_scalars)
  have "Blob_Deserialize FEPB Blob_empty
          (NewDecodingReader (concat (elems blob)) (length (concat (elems blob))))
        = (None, \<lparr>elems = elems blob, spare = []\<rparr>,
           (NewDecodingReader (concat (elems blob)) (length (concat (elems blob))))
             \<lparr>dr_input := [],
              dr_i := dr_i (NewDecodingReader (concat (elems blob)) (length (concat (elems blob))))
                      + FEPB * 32\<rparr>)"
    by (rule Blob_Deserialize_ok [OF wf]) (simp_all add: NewDecodingReader_def len)
  with s show "\<exists>w blob' dr'. Blob_Serialize blob NewEncodingWriter = (None, w)
         \<and> Blob_Deserialize FEPB Blob_empty (NewDecodingReader (ew_out w) (length (ew_out w)))
             = (None, blob', dr')
         \<and> elems blob' = elems blob"
    by simp
next
  assume p: "length p = 48"
  have s: "KZGCommitment_Serialize p NewEncodingWriter = (None, \<lparr>ew_out = p, ew_room = None\<rparr>)"
    by (simp add: KZGCommitment_Serialize_def ew_Write_unlimited NewEncodingWriter_def)
  have "KZGCommitment_Deserialize (Some KZGCommitment_zero) (NewDecodingReader p (length p))
        = (None, Some p, (NewDecodingReader p (length p))
             \<lparr>dr_input := [], dr_i := dr_i (NewDecodingReader p (length p)) + 48\<rparr>)"
    using p
    by (intro KZGCommitment_Deserialize_ok)
       (simp_all add: NewDecodingReader_def KZGCommitment_zero_def)
  with s show "\<exists>w dr'. KZGCommitment_Serialize p NewEncodingWriter = (None, w)
         \<and> KZGCommitment_Deserialize (Some KZGCommitment_zero)
               (NewDecodingReader (ew_out w) (length (ew_out w)))
             = (None, Some p, dr')"
    by simp
next
  assume "wf_kzgs li \<and> length li \<le> MAX_TX_WRAP_KZG_COMMITMENTS"
  then have wf: "wf_kzgs li" and le: "length li \<le> 2 ^ 24"
    by (simp_all add: MAX_TX_WRAP_KZG_COMMITMENTS_def)
  have s: "BlobKzgs_Serialize li NewEncodingWriter = (None, \<lparr>ew_out = concat li, ew_room = None\<rparr>)"
    by (simp add: BlobKzgs_Serialize_unlimited NewEncodingWriter_def)
  have "BlobKzgs_Deserialize [] (NewDecodingReader (concat li) (length (concat li)))
        = (None, [] @ li, (NewDecodingReader (concat li) (length (concat li)))
             \<lparr>dr_input := [], dr_i := dr_max (NewDecodingReader (concat li) (length (concat li)))\<rparr>)"
    using wf le
    by (intro BlobKzgs_Deserialize_ok) (simp_all add: NewDecodingReader_def length_concat_kzgs)
  with s show "\<exists>w dr'. BlobKzgs_Serialize li NewEncodingWriter = (None, w)
         \<and> BlobKzgs_Deserialize [] (NewDecodingReader (ew_out w) (length (ew_out w)))
             = (None, li, dr')"
    by simp
next
  assume "0 < FEPB \<and> wf_blobs FEPB a \<and> length a \<le> LIMIT_BLOBS_PER_TX"
  then have fepb: "0 < FEPB" and wf: "wf_blobs FEPB a" and le: "length a \<le> 2 ^ 24"
    by (simp_all add: LIMIT_BLOBS_PER_TX_def)
  let ?bs = "concat (map (concat \<circ> elems) a)"
  have s: "Blobs_Serialize FEPB a NewEncodingWriter = (None, \<lparr>ew_out = ?bs, ew_room = None\<rparr>)"
    by (simp add: Blobs_Serialize_unlimited NewEncodingWriter_def)
  have "Blobs_Deserialize FEPB [] (NewDecodingReader ?bs (length ?bs))
        = (None, [] @ map (\<lambda>b. \<lparr>elems = elems b, spare = []\<rparr>) a,
           (NewDecodingReader ?bs (length ?bs))
             \<lparr>dr_input := [], dr_i := dr_max (NewDecodingReader ?bs (length ?bs))\<rparr>)"
    using fepb wf le
    by (intro Blobs_Deserialize_ok)
       (simp_all add: NewDecodingReader_def length_concat_blobs mult.commute mult.left_commute)
  with s show "\<exists>w a' dr'. Blobs_Serialize FEPB a NewEncodingWriter = (None, w)
         \<and> Blobs_Deserialize FEPB [] (NewDecodingReader (ew_out w) (length (ew_out w)))
             = (None, a', dr')
         \<and> map elems a' = map elems a"
    by (simp add: comp_def)
next
  assume h: "0 < FEPB \<and> wf_kzgs (wrapper_BlobKzgs txw)
      \<and> length (wrapper_BlobKzgs txw) \<le> MAX_TX_WRAP_KZG_COMMITMENTS
      \<and> wf_blobs FEPB (wrapper_Blobs txw) \<and> length (wrapper_Blobs txw) \<le> LIMIT_BLOBS_PER_TX
      \<and> tx_dec (tx_enc (wrapper_Tx txw)) = Some (wrapper_Tx txw)
      \<and> 12 + length (tx_enc (wrapper_Tx txw)) + length (wrapper_BlobKzgs txw) * 48
           + length (wrapper_Blobs txw) * FEPB * 32 < 2 ^ 32"
  let ?bs = "le_bytes 4 12
              @ le_bytes 4 (12 + length (tx_enc (wrapper_Tx txw)))
              @ le_bytes 4 (12 + length (tx_enc (wrapper_Tx txw)) + length (wrapper_BlobKzgs txw) * 48)
              @ tx_enc (wrapper_Tx txw)
              @ concat (wrapper_BlobKzgs txw)
              @ concat (map (concat \<circ> elems) (wrapper_Blobs txw))"
  have s: "BlobTxWrapper_Serialize tx_enc FEPB txw NewEncodingWriter
           = (None, \<lparr>ew_out = ?bs, ew_room = None\<rparr>)"
    using BlobTxWrapper_Serialize_unlimited [of NewEncodingWriter tx_enc FEPB txw]
    by (simp add: NewEncodingWriter_def)
  have d: "BlobTxWrapper_Deserialize tx_dec FEPB
             \<lparr>wrapper_Tx = tx0, wrapper_BlobKzgs = [], wrapper_Blobs = []\<rparr>
             (NewDecodingReader ?bs (length ?bs))
           = (None,
              \<lparr>wrapper_Tx = wrapper_Tx txw, wrapper_BlobKzgs = wrapper_BlobKzgs txw,
               wrapper_Blobs = map (\<lambda>b. \<lparr>elems = elems b, spare = []\<rparr>) (wrapper_Blobs txw)\<rparr>,
              \<lparr>dr_input = [], dr_i = length ?bs, dr_max = length ?bs\<rparr>)"
    using h
    by (intro BlobTxWrapper_Deserialize_ok [where txb = "tx_enc (wrapper_Tx txw)"])
       (simp_all add: MAX_TX_WRAP_KZG_COMMITMENTS_def LIMIT_BLOBS_PER_TX_def)
  show "\<exists>w txw' dr'. BlobTxWrapper_Serialize tx_enc FEPB txw NewEncodingWriter = (None, w)
         \<and> BlobTxWrapper_Deserialize tx_dec FEPB
               \<lparr>wrapper_Tx = tx0, wrapper_BlobKzgs = [], wrapper_Blobs = []\<rparr>
               (NewDecodingReader (ew_out w) (length (ew_out w)))
             = (None, txw', dr')
         \<and> wrapper_Tx txw' = wrapper_Tx txw
         \<and> wrapper_BlobKzgs txw' = wrapper_BlobKzgs txw
         \<and> map elems (wrapper_Blobs txw') = map elems (wrapper_Blobs txw)"
    using s d by (simp add: comp_def)
qed

theorem Serialize_Deserialize_roundtrip_witness:
  "wf_blob 2 example_blob
   \<and> (\<exists>w blob' dr'. Blob_Serialize example_blob NewEncodingWriter = (None, w)
         \<and> Blob_Deserialize 2 Blob_empty (NewDecodingReader (ew_out w) (length (ew_out w)))
             = (None, blob', dr')
         \<and> elems blob' = elems example_blob)
   \<and> length (replicate 48 (1 :: byte)) = 48
   \<and> (\<exists>w dr'. KZGCommitment_Serialize (replicate 48 1) NewEncodingWriter = (None, w)
         \<and> KZGCommitment_Deserialize (Some KZGCommitment_zero)
               (NewDecodingReader (ew_out w) (length (ew_out w)))
             = (None, Some (replicate 48 1), dr'))
   \<and> (wf_kzgs [replicate 48 1, replicate 48 2]
        \<and> length [replicate 48 (1 :: byte), replicate 48 2] \<le> MAX_TX_WRAP_KZG_COMMITMENTS)
   \<and> (\<exists>w dr'. BlobKzgs_Serialize [replicate 48 1, replicate 48 2] NewEncodingWriter = (None, w)
         \<and> BlobKzgs_Deserialize [] (NewDecodingReader (ew_out w) (length (ew_out w)))
             = (None, [replicate 48 1, replicate 48 2], dr'))
   \<and> (0 < (2 :: nat) \<and> wf_blobs 2 [example_blob, example_blob]
        \<and> length [example_blob, example_blob] \<le> LIMIT_BLOBS_PER_TX)
   \<and> (\<exists>w a' dr'. Blobs_Serialize 2 [example_blob, example_blob] NewEncodingWriter = (None, w)
         \<and> Blobs_Deserialize 2 [] (NewDecodingReader (ew_out w) (length (ew_out w)))
             = (None, a', dr')
         \<and> map elems a' = map elems [example_blob, example_blob])
   \<and> (0 < (2 :: nat) \<and> wf_kzgs (wrapper_BlobKzgs example_wrapper)
      \<and> length (wrapper_BlobKzgs example_wrapper) \<le> MAX_TX_WRAP_KZG_COMMITMENTS
      \<and> wf_blobs 2 (wrapper_Blobs example_wrapper)
      \<and> length (wrapper_Blobs example_wrapper) \<le> LIMIT_BLOBS_PER_TX
      \<and> example_tx_dec (example_tx_enc (wrapper_Tx example_wrapper)) = Some (wrapper_Tx example_wrapper)
      \<and> 12 + length (example_tx_enc (wrapper_Tx example_wrapper))
           + length (wrapper_BlobKzgs example_wrapper) * 48
           + length (wrapper_Blobs example_wrapper) * 2 * 32 < 2 ^ 32)
   \<and> (\<exists>w txw' dr'.
         BlobTxWrapper_Serialize example_tx_enc 2 example_wrapper NewEncodingWriter = (None, w)
         \<and> BlobTxWrapper_Deserialize example_tx_dec 2
               \<lparr>wrapper_Tx = 0, wrapper_BlobKzgs = [], wrapper_Blobs = []\<rparr>
               (NewDecodingReader (ew_out w) (length (ew_out w)))
             = (None, txw', dr')
         \<and> wrapper_Tx txw' = wrapper_Tx example_wrapper
         \<and> wrapper_BlobKzgs txw' = wrapper_BlobKzgs example_wrapper
         \<and> map elems (wrapper_Blobs txw') = map elems (wrapper_Blobs example_wrapper))"
proof -
  have wb: "wf_blob 2 example_blob"
    by (simp add: wf_blob_def wf_scalars_def example_blob_def)
  have wk: "wf_kzgs [replicate 48 1, replicate 48 2]"
    by (simp add: wf_kzgs_def)
  have h1: "wf_blob 2 example_blob" by (rule wb)
  have h2: "length (replicate 48 (1 :: byte)) = 48" by simp
  have h3: "wf_kzgs [replicate 48 1, replicate 48 2]
            \<and> length [replicate 48 (1 :: byte), replicate 48 2] \<le> MAX_TX_WRAP_KZG_COMMITMENTS"
    using wk by (simp add: MAX_TX_WRAP_KZG_COMMITMENTS_def)
  have h4: "0 < (2 :: nat) \<and> wf_blobs 2 [example_blob, example_blob]
            \<and> length [example_blob, example_blob] \<le> LIMIT_BLOBS_PER_TX"
    using wb by (simp add: wf_blobs_def LIMIT_BLOBS_PER_TX_def)
  have tx: "example_tx_dec (example_tx_enc 5) = Some 5"
    by (simp add: example_tx_dec_def example_tx_enc_def length_le_bytes le_nat_le_bytes)
  have h5: "0 < (2 :: nat) \<and> wf_kzgs (wrapper_BlobKzgs example_wrapper)
      \<and> length (wrapper_BlobKzgs example_wrapper) \<le> MAX_TX_WRAP_KZG_COMMITMENTS
      \<and> wf_blobs 2 (wrapper_Blobs example_wrapper)
      \<and> length (wrapper_Blobs example_wrapper) \<le> LIMIT_BLOBS_PER_TX
      \<and> example_tx_dec (example_tx_enc (wrapper_Tx example_wrapper)) = Some (wrapper_Tx example_wrapper)
      \<and> 12 + length (example_tx_enc (wrapper_Tx example_wrapper))
           + length (wrapper_BlobKzgs example_wrapper) * 48
           + length (wrapper_Blobs example_wrapper) * 2 * 32 < 2 ^ 32"
    using h3 h4 tx by (simp add: example_wrapper_def example_tx_enc_def length_le_bytes)
  show ?thesis
    using h1 h2 h3 h4 h5
      Serialize_Deserialize_roundtrip [of 2 example_blob "replicate 48 1"
        "[replicate 48 1, replicate 48 2]" "[example_blob, example_blob]" example_wrapper
        example_tx_dec example_tx_enc 0]
    by blast
qed

end
